theory Spec2Isabelle
  imports Complex_Main "HOL-Library.AList" "HOL-Library.Log_Nat"
begin

section \<open>Python values shared by the three modules\<close>

text \<open>
  Exceptions are values: every function of the package that can raise returns
  \<open>error + 'a\<close>, with \<open>Inl\<close> for the exception that leaves the function.
\<close>

datatype error =
    KeyError | IndexError | ValueError | TypeError | AttributeError | IOError | ParseError
  | OverflowError

text \<open>
  A Python \<open>dict\<close> is an association list in insertion order with one entry per key:
  storing under a key that is present replaces the value where it stands, storing under a
  new key appends. This is \<open>AList.update\<close>. \<open>dict(zip(ks, vs))\<close> stores the pairs
  from left to right.
\<close>

definition dict_zip :: "'k list \<Rightarrow> 'v list \<Rightarrow> ('k \<times> 'v) list" where
  "dict_zip ks vs = fold (\<lambda>(k, v). AList.update k v) (zip ks vs) []"

section \<open>Module signature: the class GeneSignature\<close>

text \<open>
  \<open>_gset\<close> is a pandas Series built from a dict: gene labels with one float64 weight
  each. The type \<open>'w\<close> is the type of the float64 values, with the constants \<open>0\<close> (the
  default bias \<open>0.0\<close>) and \<open>1\<close> (\<open>np.ones\<close>). The Series is kept as the dict it is
  built from; where pandas sorts the index of a Series made from a dict the order of
  \<open>genes\<close> differs, and no statement below depends on that order.
\<close>

record ('g, 'w) GeneSignature =
  gset :: "('g \<times> 'w) list"
  bias :: 'w
  info :: string

text \<open>
  The argument \<open>w\<close> of the constructor: \<open>None\<close>, a Python list, or anything else
  (taken as a constant).

  The weights in \<open>w\<close> reach the Series only through the conversion to float64 that numpy
  and pandas apply (\<open>ndarray.fill\<close> on an array of dtype float64,
  \<open>Series(..., dtype=np.float64)\<close>), and the constructor uses them in no other way. A
  weight is therefore given as the outcome of that conversion: \<open>Inr\<close> the float64 it
  becomes, \<open>Inl\<close> the exception the conversion raises. A Python float is its own outcome;
  the outcome for a Python int is \<open>float64_of_int\<close> below.
\<close>

datatype 'w weights = WList "'w list" | WScalar 'w

text \<open>
  \<open>Series(d, dtype=np.float64)\<close> on the dict \<open>d\<close>: every value of the dict is converted,
  and the first conversion that raises ends the construction.
\<close>

fun to_float64_all :: "('k \<times> (error + 'w)) list \<Rightarrow> error + ('k \<times> 'w) list" where
  "to_float64_all [] = Inr []"
| "to_float64_all ((k, x) # ps) =
     (case x of
        Inl e \<Rightarrow> Inl e
      | Inr c \<Rightarrow> (case to_float64_all ps of Inl e \<Rightarrow> Inl e | Inr qs \<Rightarrow> Inr ((k, c) # qs)))"

definition GeneSignature_init ::
  "'g list \<Rightarrow> (error + 'w) weights option \<Rightarrow> 'w option \<Rightarrow> string
     \<Rightarrow> error + ('g, 'w :: {zero, one}) GeneSignature" where
  "GeneSignature_init gid w b nfo =
     (let bias0 = (case b of None \<Rightarrow> 0 | Some x \<Rightarrow> x) in
      case w of
        None \<Rightarrow>
          Inr \<lparr>gset = dict_zip gid (replicate (length gid) 1), bias = bias0, info = nfo\<rparr>
      | Some (WList ws) \<Rightarrow>
          if length ws = 1 then
            (case ws ! 0 of
               Inl e \<Rightarrow> Inl e
             | Inr c \<Rightarrow>
                 Inr \<lparr>gset = dict_zip gid (replicate (length gid) c),
                      bias = bias0, info = nfo\<rparr>)
          else if length ws = length gid then
            (case to_float64_all (dict_zip gid ws) of
               Inl e \<Rightarrow> Inl e
             | Inr s \<Rightarrow> Inr \<lparr>gset = s, bias = bias0, info = nfo\<rparr>)
          else Inl ValueError
      | Some (WScalar x) \<Rightarrow>
          (case x of
             Inl e \<Rightarrow> Inl e
           | Inr c \<Rightarrow>
               Inr \<lparr>gset = dict_zip gid (replicate (length gid) c),
                    bias = bias0, info = nfo\<rparr>))"

text \<open>
  The conversion of a Python int to a float64, with the float64 values as the reals they
  denote: the int is rounded to 53 significant bits, to nearest and ties to even, and an
  int whose rounded value does not fit (it reaches \<open>2 ^ 1024\<close>) raises OverflowError.
\<close>

definition round_to_53_bits :: "nat \<Rightarrow> nat" where
  "round_to_53_bits a =
     (let k = floorlog 2 a in
      if k \<le> 53 then a
      else
        let s = k - 53; q = a div 2 ^ s; r = a mod 2 ^ s; h = 2 ^ (s - 1)
        in (if h < r \<or> (r = h \<and> odd q) then q + 1 else q) * 2 ^ s)"

definition float64_of_int :: "int \<Rightarrow> error + real" where
  "float64_of_int n =
     (let a = round_to_53_bits (nat \<bar>n\<bar>) in
      if 2 ^ 1024 \<le> a then Inl OverflowError else Inr (of_int (sgn n * int a)))"

definition genes :: "('g, 'w) GeneSignature \<Rightarrow> 'g list" where
  "genes gs = map fst (gset gs)"

text \<open>
  \<open>remap\<close> has a docstring and no statement: the call returns \<open>None\<close> and the object
  is the one it was. The model returns the result together with the object after the call.
\<close>

definition remap ::
  "('g, 'w) GeneSignature \<Rightarrow> ('g \<rightharpoonup> 'g) \<Rightarrow> 'g list option \<times> ('g, 'w) GeneSignature" where
  "remap gs old_to_new = (None, gs)"

section \<open>Module annot: the class Annotation\<close>

text \<open>
  A cell of the annotation table is text (\<open>dtype=str\<close>) or NaN, the missing value:
  \<open>None\<close>. The table has the six named columns; a DataFrame is its rows, each under its
  index label.
\<close>

type_synonym cell = "string option"

record row =
  EntrezID :: cell
  Symbol :: cell
  Symbol_alt :: cell
  Chr_pos :: cell
  Synonyms :: cell
  Title :: cell

type_synonym frame = "(cell \<times> row) list"

text \<open>
  \<open>pd.read_table(fname, header=None, names=[...], na_values=['-'], dtype=str)\<close>. The
  source is given as the delimited reader splits it, one list of fields per row. A field
  is missing when it is \<open>-\<close> or one of the strings pandas takes as missing by default,
  the parameter \<open>dflt\<close>; a row with fewer than six fields is filled up with missing
  values. A row with more than six fields is reported as the parsing error of the
  specification; every statement below is about sources whose rows have six fields.
\<close>

definition na_cell :: "string list \<Rightarrow> string \<Rightarrow> cell" where
  "na_cell dflt s = (if s \<in> set (''-'' # dflt) then None else Some s)"

definition field :: "string list \<Rightarrow> string list \<Rightarrow> nat \<Rightarrow> cell" where
  "field dflt fs i = (if i < length fs then na_cell dflt (fs ! i) else None)"

definition mk_row :: "string list \<Rightarrow> string list \<Rightarrow> row" where
  "mk_row dflt fs =
     \<lparr>EntrezID = field dflt fs 0, Symbol = field dflt fs 1,
      Symbol_alt = field dflt fs 2, Chr_pos = field dflt fs 3,
      Synonyms = field dflt fs 4, Title = field dflt fs 5\<rparr>"

definition read_table :: "string list \<Rightarrow> string list list \<Rightarrow> error + row list" where
  "read_table dflt src =
     (if list_all (\<lambda>fs. length fs \<le> 6) src then Inr (map (mk_row dflt) src)
      else Inl ParseError)"

text \<open>
  The version is the int \<open>0\<close> of \<open>__init__\<close> until a setter call stores a string; the
  arguments \<open>ver\<close> of \<open>read_from_table\<close> and \<open>load\<close> are strings, as documented.
\<close>

datatype pyver = IntV int | StrV string

record Annotation =
  version :: pyver
  data :: "frame option"
  gene_to_id :: "(cell \<times> cell) list option"

definition Annotation_init :: "pyver \<Rightarrow> Annotation" where
  "Annotation_init v = \<lparr>version = v, data = None, gene_to_id = None\<rparr>"

text \<open>
  \<open>read_from_table\<close>: the file is the outcome of opening and splitting it (\<open>Inl\<close> when it
  cannot be read). The index of the frame becomes the column EntrezID, the version the
  given string and the reverse index \<open>dict(zip(Symbol, EntrezID))\<close>.
\<close>

definition read_from_table ::
  "string list \<Rightarrow> Annotation \<Rightarrow> error + string list list \<Rightarrow> string \<Rightarrow> error + Annotation" where
  "read_from_table dflt self fname ver =
     (case fname of
        Inl e \<Rightarrow> Inl e
      | Inr src \<Rightarrow>
          (case read_table dflt src of
             Inl e \<Rightarrow> Inl e
           | Inr rows \<Rightarrow>
               Inr \<lparr>version = StrV ver,
                    data = Some (zip (map EntrezID rows) rows),
                    gene_to_id = Some (dict_zip (map Symbol rows) (map EntrezID rows))\<rparr>))"

text \<open>
  An HDF5 container maps keys to frames; the file system maps file names to containers.
  \<open>to_hdf(..., mode='a')\<close> creates the file when it is missing and replaces the frame
  under the key. \<open>self.__data.to_hdf\<close> is looked up before the key is computed.
\<close>

type_synonym hdf = "string \<rightharpoonup> frame"

definition save_key :: "string \<Rightarrow> string" where
  "save_key v = ''annot_'' @ v"

definition load_key :: "string \<Rightarrow> string" where
  "load_key v = ''annot-'' @ v"

definition save :: "Annotation \<Rightarrow> string \<Rightarrow> (string \<rightharpoonup> hdf) \<Rightarrow> error + (string \<rightharpoonup> hdf)" where
  "save self fname files =
     (case data self of
        None \<Rightarrow> Inl AttributeError
      | Some d \<Rightarrow>
          (case version self of
             IntV n \<Rightarrow> Inl TypeError
           | StrV v \<Rightarrow>
               Inr (files(fname \<mapsto>
                      (case files fname of None \<Rightarrow> Map.empty | Some st \<Rightarrow> st)
                        (save_key v \<mapsto> d)))))"

text \<open>
  \<open>load\<close> sets the version first, so the object after a failed call has the new version.
  The result is the exception, if any, and the object after the call.
\<close>

definition load ::
  "Annotation \<Rightarrow> string \<Rightarrow> string \<Rightarrow> (string \<rightharpoonup> hdf) \<Rightarrow> error option \<times> Annotation" where
  "load self fname ver files =
     (let self1 = self\<lparr>version := StrV ver\<rparr> in
      case files fname of
        None \<Rightarrow> (Some IOError, self1)
      | Some st \<Rightarrow>
          (case st (load_key ver) of
             None \<Rightarrow> (Some KeyError, self1)
           | Some d \<Rightarrow>
               (None,
                self1\<lparr>data := Some d,
                       gene_to_id :=
                         Some (dict_zip (map (Symbol \<circ> snd) d) (map (EntrezID \<circ> snd) d))\<rparr>)))"

definition id_from_symbol :: "Annotation \<Rightarrow> cell \<Rightarrow> error + cell" where
  "id_from_symbol self gene =
     (case gene_to_id self of
        None \<Rightarrow> Inl TypeError
      | Some d \<Rightarrow> (case map_of d gene of None \<Rightarrow> Inl KeyError | Some i \<Rightarrow> Inr i))"

text \<open>
  \<open>self.__data.Symbol[id]\<close> selects by index label: no row is a KeyError, one row gives
  the cell, several rows give a Series of their cells.
\<close>

datatype 'a selection = Scalar 'a | Column "'a list"

definition gene_from_id :: "Annotation \<Rightarrow> string \<Rightarrow> error + cell selection" where
  "gene_from_id self i =
     (case data self of
        None \<Rightarrow> Inl AttributeError
      | Some d \<Rightarrow>
          (case filter (\<lambda>(l, r). l = Some i) d of
             [] \<Rightarrow> Inl KeyError
           | [(l, r)] \<Rightarrow> Inr (Scalar (Symbol r))
           | rs \<Rightarrow> Inr (Column (map (Symbol \<circ> snd) rs))))"

text \<open>
  The expression \<open>id_from_symbol(gene_from_id(x))\<close>: a Series is not hashable, so it is
  a TypeError as a dict key.
\<close>

definition symbol_roundtrip :: "Annotation \<Rightarrow> string \<Rightarrow> error + cell" where
  "symbol_roundtrip self x =
     (case gene_from_id self x of
        Inl e \<Rightarrow> Inl e
      | Inr (Scalar s) \<Rightarrow> id_from_symbol self s
      | Inr (Column ss) \<Rightarrow> Inl TypeError)"

section \<open>Module io: the two loaders\<close>

text \<open>
  \<open>str.split(sep)\<close> with a separator of one character, \<open>str.startswith\<close> and
  \<open>str.strip()\<close>, which removes whitespace at both ends. The whitespace is that of
  Python 3 among the code points below 256: 0x09 to 0x0D, 0x1C to 0x1F, the space, 0x85
  and 0xA0.
\<close>

fun str_split :: "char \<Rightarrow> string \<Rightarrow> string list" where
  "str_split c [] = [[]]"
| "str_split c (x # xs) =
     (if x = c then [] # str_split c xs
      else (case str_split c xs of [] \<Rightarrow> [[x]] | t # ts \<Rightarrow> (x # t) # ts))"

definition startswith :: "string \<Rightarrow> string \<Rightarrow> bool" where
  "startswith s p = (take (length p) s = p)"

definition isspace :: "char \<Rightarrow> bool" where
  "isspace c = (c \<in> set [CHR 0x09, CHR 0x0A, CHR 0x0B, CHR 0x0C, CHR 0x0D,
                          CHR 0x1C, CHR 0x1D, CHR 0x1E, CHR 0x1F, CHR 0x20,
                          CHR 0x85, CHR 0xA0])"

definition strip :: "string \<Rightarrow> string" where
  "strip s = rev (dropWhile isspace (rev (dropWhile isspace s)))"

text \<open>
  The list comprehension \<open>[annot.id_from_symbol(g) for g in tokens[2:]]\<close>: the first
  lookup that raises ends it.
\<close>

fun resolve :: "Annotation \<Rightarrow> string list \<Rightarrow> error + cell list" where
  "resolve annot [] = Inr []"
| "resolve annot (g # gs) =
     (case id_from_symbol annot (Some g) of
        Inl e \<Rightarrow> Inl e
      | Inr i \<Rightarrow> (case resolve annot gs of Inl e \<Rightarrow> Inl e | Inr ids \<Rightarrow> Inr (i # ids)))"

definition gmt_url :: string where
  "gmt_url = ''http://compbio.dfci.harvard.edu/genesigdb/publicationSearch.jsp?searchQuery=''"

text \<open>
  The body of the loop of \<open>load_gmt_genesigdb\<close> on one line, from the state \<open>db\<close>,
  \<open>discarded\<close> before the line to the state after it. \<open>tokens[-1] = tokens[1].strip()\<close>
  stores the stripped second token in the last place. Only KeyError is caught.
\<close>

definition gmt_line ::
  "Annotation \<Rightarrow> (string \<rightharpoonup> (cell, 'w :: {zero, one}) GeneSignature) \<times> string list \<Rightarrow> string
     \<Rightarrow> error + (string \<rightharpoonup> (cell, 'w) GeneSignature) \<times> string list" where
  "gmt_line annot st line =
     (case st of (db, discarded) \<Rightarrow>
        let tokens = str_split (CHR 0x09) line in
        if length tokens < 2 then Inl IndexError
        else if \<not> startswith (tokens ! 1) ''Human'' then Inr (db, discarded @ [tokens ! 0])
        else
          let key = ''GS_'' @ tokens ! 0;
              url = gmt_url @ tokens ! 0;
              tokens1 = tokens[length tokens - 1 := strip (tokens ! 1)]
          in case resolve annot (drop 2 tokens1) of
               Inl e \<Rightarrow> if e = KeyError then Inr (db, discarded @ [tokens1 ! 0]) else Inl e
             | Inr gid \<Rightarrow>
                 (case GeneSignature_init gid None None url of
                    Inl e \<Rightarrow> Inl e
                  | Inr gs \<Rightarrow> Inr (db(key \<mapsto> gs), discarded)))"

fun gmt_lines ::
  "Annotation \<Rightarrow> (string \<rightharpoonup> (cell, 'w :: {zero, one}) GeneSignature) \<times> string list \<Rightarrow> string list
     \<Rightarrow> error + (string \<rightharpoonup> (cell, 'w) GeneSignature) \<times> string list" where
  "gmt_lines annot st [] = Inr st"
| "gmt_lines annot st (line # rest) =
     (case gmt_line annot st line of Inl e \<Rightarrow> Inl e | Inr st1 \<Rightarrow> gmt_lines annot st1 rest)"

text \<open>
  The file is the outcome of \<open>open\<close>: \<open>Inl\<close> when it cannot be opened, else the lines
  its iterator yields, each with its line end.
\<close>

definition load_gmt_genesigdb ::
  "error + string list \<Rightarrow> Annotation
     \<Rightarrow> error + (string \<rightharpoonup> (cell, 'w :: {zero, one}) GeneSignature) \<times> string list" where
  "load_gmt_genesigdb fname annot =
     (case fname of Inl e \<Rightarrow> Inl e | Inr ls \<Rightarrow> gmt_lines annot (Map.empty, []) ls)"

text \<open>
  The markup loader works on the GENESET elements of the parsed tree, each the dict of its
  attributes; reading an attribute that is absent is a KeyError.
\<close>

definition xml_url :: string where
  "xml_url = ''http://www.broadinstitute.ors/gsea/msigdb/geneset_page.jsp?geneSetName=''"

definition xml_entry ::
  "(string \<rightharpoonup> (string, 'w :: {zero, one}) GeneSignature) \<times> string list \<Rightarrow> (string \<rightharpoonup> string)
     \<Rightarrow> error + (string \<rightharpoonup> (string, 'w) GeneSignature) \<times> string list" where
  "xml_entry st attrib =
     (case st of (db, discarded) \<Rightarrow>
        (case attrib ''ORGANISM'' of
           None \<Rightarrow> Inl KeyError
         | Some org \<Rightarrow>
             if org \<noteq> ''Homo sapiens'' then
               (case attrib ''SYSTEMATIC_NAME'' of
                  None \<Rightarrow> Inl KeyError
                | Some n \<Rightarrow> Inr (db, discarded @ [n]))
             else
               (case attrib ''MEMBERS_EZID'' of
                  None \<Rightarrow> Inl KeyError
                | Some m \<Rightarrow>
                    (case attrib ''STANDARD_NAME'' of
                       None \<Rightarrow> Inl KeyError
                     | Some sn \<Rightarrow>
                         (case attrib ''CATEGORY_CODE'' of
                            None \<Rightarrow> Inl KeyError
                          | Some cc \<Rightarrow>
                              (case attrib ''SYSTEMATIC_NAME'' of
                                 None \<Rightarrow> Inl KeyError
                               | Some n \<Rightarrow>
                                   (case GeneSignature_init (str_split (CHR '','') m) None None
                                           (xml_url @ sn) of
                                      Inl e \<Rightarrow> Inl e
                                    | Inr gs \<Rightarrow> Inr (db(cc @ ''_'' @ n \<mapsto> gs), discarded))))))))"

fun xml_entries ::
  "(string \<rightharpoonup> (string, 'w :: {zero, one}) GeneSignature) \<times> string list
     \<Rightarrow> (string \<rightharpoonup> string) list
     \<Rightarrow> error + (string \<rightharpoonup> (string, 'w) GeneSignature) \<times> string list" where
  "xml_entries st [] = Inr st"
| "xml_entries st (sig # rest) =
     (case xml_entry st sig of Inl e \<Rightarrow> Inl e | Inr st1 \<Rightarrow> xml_entries st1 rest)"

definition load_xml_msigdb ::
  "error + (string \<rightharpoonup> string) list
     \<Rightarrow> error + (string \<rightharpoonup> (string, 'w :: {zero, one}) GeneSignature) \<times> string list" where
  "load_xml_msigdb fname =
     (case fname of Inl e \<Rightarrow> Inl e | Inr sigs \<Rightarrow> xml_entries (Map.empty, []) sigs)"

section \<open>Inputs the statements are about\<close>

text \<open>
  A valid annotation source: every row has six fields, the identifier and the symbol of
  every row are present (not a missing-value string), and no identifier stands in two rows.
\<close>

definition valid_source :: "string list \<Rightarrow> string list list \<Rightarrow> bool" where
  "valid_source dflt src =
     (list_all (\<lambda>fs. length fs = 6 \<and> fs ! 0 \<notin> set (''-'' # dflt) \<and> fs ! 1 \<notin> set (''-'' # dflt)) src
      \<and> distinct (map (\<lambda>fs. fs ! 0) src))"

text \<open>An annotation source of three rows; the first and the third share a symbol.\<close>

definition example_table :: "string list list" where
  "example_table =
     [[''100'', ''GENE_A'', ''-'', ''1p36'', ''-'', ''gene a''],
      [''200'', ''GENE_B'', ''GB'', ''-'', ''-'', ''-''],
      [''300'', ''GENE_A'', ''-'', ''-'', ''-'', ''-'']]"

text \<open>
  What the loop body of \<open>load_gmt_genesigdb\<close> reads off a line: \<open>tokens[0]\<close>, the
  symbols it looks up (\<open>tokens[2:]\<close> after the assignment to \<open>tokens[-1]\<close>), whether
  \<open>tokens[1]\<close> exists, and whether the line ends in one of the two \<open>discarded.append\<close>.
\<close>

definition sig_id :: "string \<Rightarrow> string" where
  "sig_id line = str_split (CHR 0x09) line ! 0"

definition looked_up :: "string \<Rightarrow> string list" where
  "looked_up line =
     (let tokens = str_split (CHR 0x09) line
      in drop 2 (tokens[length tokens - 1 := strip (tokens ! 1)]))"

definition gmt_well_formed :: "string \<Rightarrow> bool" where
  "gmt_well_formed line = (2 \<le> length (str_split (CHR 0x09) line))"

definition gmt_discards :: "Annotation \<Rightarrow> string \<Rightarrow> bool" where
  "gmt_discards annot line =
     (if startswith (str_split (CHR 0x09) line ! 1) ''Human''
      then resolve annot (looked_up line) = Inl KeyError else True)"

text \<open>
  The same for a GENESET element: the attributes \<open>load_xml_msigdb\<close> reads are present,
  the element is not a human one, the name it is discarded under and the key it is stored
  under.
\<close>

definition xml_well_formed :: "(string \<rightharpoonup> string) \<Rightarrow> bool" where
  "xml_well_formed attrib =
     (case attrib ''ORGANISM'' of
        None \<Rightarrow> False
      | Some org \<Rightarrow>
          if org \<noteq> ''Homo sapiens'' then attrib ''SYSTEMATIC_NAME'' \<noteq> None
          else attrib ''MEMBERS_EZID'' \<noteq> None \<and> attrib ''STANDARD_NAME'' \<noteq> None
               \<and> attrib ''CATEGORY_CODE'' \<noteq> None \<and> attrib ''SYSTEMATIC_NAME'' \<noteq> None)"

definition xml_discards :: "(string \<rightharpoonup> string) \<Rightarrow> bool" where
  "xml_discards attrib = (attrib ''ORGANISM'' \<noteq> Some ''Homo sapiens'')"

definition xml_name :: "(string \<rightharpoonup> string) \<Rightarrow> string" where
  "xml_name attrib = (case attrib ''SYSTEMATIC_NAME'' of None \<Rightarrow> [] | Some n \<Rightarrow> n)"

definition xml_key :: "(string \<rightharpoonup> string) \<Rightarrow> string option" where
  "xml_key attrib =
     (case attrib ''CATEGORY_CODE'' of
        None \<Rightarrow> None
      | Some cc \<Rightarrow>
          (case attrib ''SYSTEMATIC_NAME'' of None \<Rightarrow> None | Some n \<Rightarrow> Some (cc @ ''_'' @ n)))"

text \<open>
  The example of the specification: the line
  \<open>SIG1\tHuman-derived\tGENE_A\tGENE_B\n\<close> and an annotation source in which GENE_A
  has the identifier 100 and GENE_B the identifier 200.
\<close>

definition spec_table :: "string list list" where
  "spec_table =
     [[''100'', ''GENE_A'', ''-'', ''-'', ''-'', ''-''],
      [''200'', ''GENE_B'', ''-'', ''-'', ''-'', ''-'']]"

definition spec_line :: string where
  "spec_line = ''SIG1'' @ [CHR 0x09] @ ''Human-derived'' @ [CHR 0x09] @ ''GENE_A''
                 @ [CHR 0x09] @ ''GENE_B'' @ [CHR 0x0A]"

text \<open>
  An annotation source in which the organism marker \<open>Human\<close> is itself a symbol, and
  three more lines: one whose last symbol GENE_B is in no table here, one without gene
  symbols, and one whose first symbol NOPE is in no table here.
\<close>

definition marker_table :: "string list list" where
  "marker_table =
     [[''100'', ''GENE_A'', ''-'', ''-'', ''-'', ''-''],
      [''999'', ''Human'', ''-'', ''-'', ''-'', ''-'']]"

definition marker_line :: string where
  "marker_line = ''SIG1'' @ [CHR 0x09] @ ''Human'' @ [CHR 0x09] @ ''GENE_A''
                   @ [CHR 0x09] @ ''GENE_B'' @ [CHR 0x0A]"

definition bare_line :: string where
  "bare_line = ''SIG1'' @ [CHR 0x09] @ ''Human'' @ [CHR 0x0A]"

definition nope_line :: string where
  "nope_line = ''SIG1'' @ [CHR 0x09] @ ''Human'' @ [CHR 0x09] @ ''NOPE''
                 @ [CHR 0x09] @ ''GENE_A'' @ [CHR 0x0A]"

text \<open>
  Three GENESET elements with the same category code and systematic name: a human one, a
  mouse one, and one without the attribute ORGANISM. And a line without a tab.
\<close>

definition human_entry :: "string \<rightharpoonup> string" where
  "human_entry =
     [''ORGANISM'' \<mapsto> ''Homo sapiens'', ''MEMBERS_EZID'' \<mapsto> ''100,200'',
      ''STANDARD_NAME'' \<mapsto> ''SET_ONE'', ''SYSTEMATIC_NAME'' \<mapsto> ''M1'',
      ''CATEGORY_CODE'' \<mapsto> ''C2'']"

definition mouse_entry :: "string \<rightharpoonup> string" where
  "mouse_entry =
     [''ORGANISM'' \<mapsto> ''Mus musculus'', ''MEMBERS_EZID'' \<mapsto> ''100,200'',
      ''STANDARD_NAME'' \<mapsto> ''SET_ONE'', ''SYSTEMATIC_NAME'' \<mapsto> ''M1'',
      ''CATEGORY_CODE'' \<mapsto> ''C2'']"

definition no_organism_entry :: "string \<rightharpoonup> string" where
  "no_organism_entry =
     [''MEMBERS_EZID'' \<mapsto> ''100,200'', ''STANDARD_NAME'' \<mapsto> ''SET_ONE'',
      ''SYSTEMATIC_NAME'' \<mapsto> ''M1'', ''CATEGORY_CODE'' \<mapsto> ''C2'']"

definition untabbed_line :: string where
  "untabbed_line = ''SIG2'' @ [CHR 0x0A]"

section \<open>Facts about dicts\<close>

lemma map_of_fold_update:
  "map_of (fold (\<lambda>(k, v). AList.update k v) ps al) = map_of al ++ map_of (rev ps)"
proof (induction ps arbitrary: al)
  case Nil
  show ?case by simp
next
  case (Cons p ps)
  obtain k v where p: "p = (k, v)" by (cases p)
  have "map_of (fold (\<lambda>(k, v). AList.update k v) (p # ps) al)
        = map_of (AList.update k v al) ++ map_of (rev ps)"
    using Cons.IH [of "AList.update k v al"] by (simp add: p)
  also have "\<dots> = map_of al ++ map_of (rev (p # ps))"
    by (rule ext) (simp add: p update_conv' map_add_def split: option.splits)
  finally show ?case .
qed

lemma map_of_dict_zip: "map_of (dict_zip ks vs) = map_of (rev (zip ks vs))"
  by (simp add: dict_zip_def map_of_fold_update)

lemma distinct_fold_update:
  "distinct (map fst al) \<Longrightarrow> distinct (map fst (fold (\<lambda>(k, v). AList.update k v) ps al))"
proof (induction ps arbitrary: al)
  case Nil
  then show ?case by simp
next
  case (Cons p ps)
  obtain k v where p: "p = (k, v)" by (cases p)
  from Cons.prems have "distinct (map fst (AList.update k v al))"
    by (rule distinct_update)
  from Cons.IH [OF this] show ?case by (simp add: p)
qed

lemma distinct_dict_zip: "distinct (map fst (dict_zip ks vs))"
  by (simp add: dict_zip_def distinct_fold_update)

lemma keys_dict_zip:
  "length ks = length vs \<Longrightarrow> set (map fst (dict_zip ks vs)) = set ks"
proof -
  assume len: "length ks = length vs"
  have "set (map fst (dict_zip ks vs)) = dom (map_of (dict_zip ks vs))"
    by (simp add: dom_map_of_conv_image_fst)
  also have "\<dots> = fst ` set (rev (zip ks vs))"
    by (simp only: map_of_dict_zip dom_map_of_conv_image_fst)
  also have "\<dots> = set (map fst (zip ks vs))" by simp
  also have "\<dots> = set ks" using len by simp
  finally show ?thesis .
qed

lemma map_of_rev_zip_last:
  assumes "length ks = length vs" and "i < length ks"
    and "\<forall>j. i < j \<and> j < length ks \<longrightarrow> ks ! j \<noteq> ks ! i"
  shows "map_of (rev (zip ks vs)) (ks ! i) = Some (vs ! i)"
  using assms
proof (induction ks vs arbitrary: i rule: list_induct2)
  case Nil
  then show ?case by simp
next
  case (Cons k ks v vs)
  show ?case
  proof (cases i)
    case 0
    have "k \<notin> set ks"
    proof
      assume "k \<in> set ks"
      then obtain j where "j < length ks" "ks ! j = k" by (auto simp: in_set_conv_nth)
      with Cons.prems(2) [rule_format, of "Suc j"] 0 show False by simp
    qed
    then have "map_of (rev (zip ks vs)) k = None"
      by (auto simp: map_of_eq_None_iff dest: set_zip_leftD)
    then show ?thesis using 0 by (simp add: map_add_def)
  next
    case (Suc n)
    have n: "n < length ks" using Cons.prems(1) Suc by simp
    have later: "\<forall>j. n < j \<and> j < length ks \<longrightarrow> ks ! j \<noteq> ks ! n"
    proof (intro allI impI)
      fix j assume "n < j \<and> j < length ks"
      with Cons.prems(2) [rule_format, of "Suc j"] Suc show "ks ! j \<noteq> ks ! n" by simp
    qed
    have "map_of (rev (zip ks vs)) (ks ! n) = Some (vs ! n)"
      by (rule Cons.IH [OF n later])
    then show ?thesis using Suc by (simp add: map_add_def)
  qed
qed

lemma map_of_dict_zip_replicate:
  "g \<in> set ks \<Longrightarrow> map_of (dict_zip ks (replicate (length ks) c)) g = Some c"
proof -
  assume g: "g \<in> set ks"
  have "g \<in> dom (map_of (dict_zip ks (replicate (length ks) c)))"
    using keys_dict_zip [of ks "replicate (length ks) c"] g
    by (simp add: dom_map_of_conv_image_fst)
  then obtain x where x: "map_of (dict_zip ks (replicate (length ks) c)) g = Some x"
    by blast
  then have "(g, x) \<in> set (rev (zip ks (replicate (length ks) c)))"
    by (simp only: map_of_dict_zip) (rule map_of_SomeD)
  then have "x \<in> set (replicate (length ks) c)"
    by (auto dest: set_zip_rightD)
  then have "x = c" by simp
  with x show ?thesis by simp
qed

section \<open>Facts about the conversion to float64\<close>

lemma update_map_values:
  "AList.update k (f v) (map (apsnd f) al) = map (apsnd f) (AList.update k v al)"
  by (induction al) auto

lemma fold_update_map_values:
  "fold (\<lambda>(k, v). AList.update k v) (map (apsnd f) ps) (map (apsnd f) al)
     = map (apsnd f) (fold (\<lambda>(k, v). AList.update k v) ps al)"
proof (induction ps arbitrary: al)
  case Nil
  show ?case by simp
next
  case (Cons p ps)
  obtain k v where p: "p = (k, v)" by (cases p)
  show ?case
    using Cons.IH [of "AList.update k v al"] by (simp add: p update_map_values)
qed

lemma dict_zip_map_values: "dict_zip ks (map f vs) = map (apsnd f) (dict_zip ks vs)"
proof -
  have "zip ks (map f vs) = map (apsnd f) (zip ks vs)"
    by (simp add: zip_map2 apsnd_def map_prod_def)
  then show ?thesis
    using fold_update_map_values [of f "zip ks vs" "[]"] by (simp add: dict_zip_def)
qed

lemma to_float64_all_Inr: "to_float64_all (map (apsnd Inr) ps) = Inr ps"
  by (induction ps) auto

lemma to_float64_all_fails:
  "(k, Inl e) \<in> set ps \<Longrightarrow> \<exists>e1. to_float64_all ps = Inl e1"
  by (induction ps) (auto split: sum.splits)

lemma all_converted:
  "\<forall>x \<in> set ws. \<exists>c. x = Inr c \<Longrightarrow> \<exists>cs. ws = map Inr cs"
proof (induction ws)
  case Nil
  show ?case by simp
next
  case (Cons x ws)
  then obtain c cs where "x = Inr c" "ws = map Inr cs" by auto
  then have "x # ws = map Inr (c # cs)" by simp
  then show ?case by (rule exI)
qed

lemma two_1024_le:  "(2 :: nat) ^ 1024 \<le> 10 ^ 400"
  by simp

lemma round_to_53_bits_lower:
  assumes "2 ^ n \<le> a" and "53 \<le> n"
  shows "2 ^ n \<le> round_to_53_bits a"
proof -
  define k where "k = floorlog 2 a"
  have apos: "0 < a" using assms(1) by (metis gr0I not_less zero_less_numeral zero_less_power le_zero_eq power_not_zero zero_neq_numeral)
  have b: "2 ^ (k - 1) \<le> a" "a < 2 ^ k"
    using floorlog_bounds [of a 2] apos by (simp_all add: k_def)
  have "2 ^ n < (2 :: nat) ^ k" using assms(1) b(2) by (rule le_less_trans)
  then have nk: "n < k" by (rule power_less_imp_less_exp [rotated]) simp
  show ?thesis
  proof (cases "k \<le> 53")
    case True
    with nk assms(2) show ?thesis by simp
  next
    case False
    define s where "s = k - 53"
    define q where "q = a div 2 ^ s"
    have ks: "k - 1 = 52 + s" using False by (simp add: s_def)
    have e: "(2 :: nat) ^ (k - 1) = 2 ^ 52 * 2 ^ s" by (simp only: ks power_add)
    have "2 ^ 52 * 2 ^ s \<le> a" using b(1) by (simp only: e)
    then have "(2 ^ 52 * 2 ^ s) div 2 ^ s \<le> a div 2 ^ s" by (rule div_le_mono)
    moreover have "(2 ^ 52 * 2 ^ s) div 2 ^ s = (2 :: nat) ^ 52"
      by (rule nonzero_mult_div_cancel_right) (simp del: power_numeral)
    ultimately have "2 ^ 52 \<le> q" by (simp only: q_def)
    then have "2 ^ 52 * 2 ^ s \<le> q * 2 ^ s" by (rule mult_le_mono1)
    then have lo: "2 ^ (k - 1) \<le> q * 2 ^ s" by (simp only: e)
    have "(2 :: nat) ^ n \<le> 2 ^ (k - 1)" using nk by (intro power_increasing) simp_all
    from this lo have "2 ^ n \<le> q * 2 ^ s" by (rule le_trans)
    also have "\<dots> \<le> round_to_53_bits a"
      using False by (simp add: round_to_53_bits_def Let_def k_def [symmetric] s_def [symmetric] q_def [symmetric])
    finally show ?thesis .
  qed
qed

lemma float64_of_int_overflows: "float64_of_int (10 ^ 400) = Inl OverflowError"
proof -
  have n: "nat \<bar>10 ^ 400 :: int\<bar> = 10 ^ 400"
    by (simp add: nat_power_eq)
  have "2 ^ 1024 \<le> round_to_53_bits (10 ^ 400)"
    by (rule round_to_53_bits_lower [OF two_1024_le]) simp
  then show ?thesis by (simp only: float64_of_int_def Let_def n if_True)
qed

lemma float64_of_small_ints:
  "float64_of_int 1 = Inr 1" "float64_of_int 2 = Inr 2"
  "float64_of_int 5 = Inr 5" "float64_of_int 7 = Inr 7"
  by (simp_all add: float64_of_int_def round_to_53_bits_def compute_floorlog Let_def)

lemma float64_of_int_rounds: "float64_of_int (2 ^ 53 + 1) = Inr (2 ^ 53)"
  by (simp add: float64_of_int_def round_to_53_bits_def compute_floorlog Let_def)

section \<open>The constructor and its weights\<close>

text \<open>
  C5, as amended. A weights list whose length is neither 1 nor the number of genes makes
  the constructor raise ValueError. Weights are stored as the float64 values they convert
  to. A list of one weight that converts gives the converted weight to every gene. A list
  as long as the gene list whose weights convert gives the gene at position k the
  converted weight at position k (for a gene that stands at several positions, at its
  last one). A weight that is not a list and converts goes to every gene, whatever the
  number of genes. A weight that the conversion rejects makes the constructor of a
  signature with genes raise: the error of the conversion for a single or non-list
  weight, an error for a weight that the dict of a positional list keeps. Every error is
  the result of the call itself.
\<close>

theorem GeneSignature_init_weights:
  fixes gid :: "'g list" and ws :: "(error + 'w :: {zero, one}) list"
  shows
    "(length ws \<noteq> 1 \<and> length ws \<noteq> length gid \<longrightarrow>
        GeneSignature_init gid (Some (WList ws)) b nfo = Inl ValueError)
   \<and> (length ws = 1 \<and> ws ! 0 = Inr c \<longrightarrow>
        (\<exists>gs. GeneSignature_init gid (Some (WList ws)) b nfo = Inr gs
           \<and> set (genes gs) = set gid
           \<and> (\<forall>g \<in> set gid. map_of (gset gs) g = Some c)))
   \<and> (length ws = 1 \<and> ws ! 0 = Inl e \<and> gid \<noteq> [] \<longrightarrow>
        GeneSignature_init gid (Some (WList ws)) b nfo = Inl e)
   \<and> (length ws = length gid \<and> (\<forall>x \<in> set ws. \<exists>c. x = Inr c) \<longrightarrow>
        (\<exists>gs. GeneSignature_init gid (Some (WList ws)) b nfo = Inr gs
           \<and> set (genes gs) = set gid
           \<and> (\<forall>k < length gid. (\<forall>j. k < j \<and> j < length gid \<longrightarrow> gid ! j \<noteq> gid ! k)
                 \<longrightarrow> map_option Inr (map_of (gset gs) (gid ! k)) = Some (ws ! k))))
   \<and> (length ws = length gid \<and> length ws \<noteq> 1
        \<and> (\<exists>k < length gid. (\<forall>j. k < j \<and> j < length gid \<longrightarrow> gid ! j \<noteq> gid ! k)
              \<and> (\<exists>e1. ws ! k = Inl e1)) \<longrightarrow>
        (\<exists>e2. GeneSignature_init gid (Some (WList ws)) b nfo = Inl e2))
   \<and> (\<exists>gs. GeneSignature_init gid (Some (WScalar (Inr c))) b nfo = Inr gs
           \<and> set (genes gs) = set gid
           \<and> (\<forall>g \<in> set gid. map_of (gset gs) g = Some c))
   \<and> (gid \<noteq> [] \<longrightarrow> GeneSignature_init gid (Some (WScalar (Inl e))) b nfo = Inl e)"
proof (intro conjI impI)
  assume "length ws \<noteq> 1 \<and> length ws \<noteq> length gid"
  then show "GeneSignature_init gid (Some (WList ws)) b nfo = Inl ValueError"
    by (simp add: GeneSignature_init_def)
next
  assume one: "length ws = 1 \<and> ws ! 0 = Inr c"
  show "\<exists>gs. GeneSignature_init gid (Some (WList ws)) b nfo = Inr gs
           \<and> set (genes gs) = set gid
           \<and> (\<forall>g \<in> set gid. map_of (gset gs) g = Some c)"
    using one keys_dict_zip [of gid "replicate (length gid) c"]
    by (simp add: GeneSignature_init_def genes_def map_of_dict_zip_replicate)
next
  assume "length ws = 1 \<and> ws ! 0 = Inl e \<and> gid \<noteq> []"
  then show "GeneSignature_init gid (Some (WList ws)) b nfo = Inl e"
    by (simp add: GeneSignature_init_def)
next
  assume h: "length ws = length gid \<and> (\<forall>x \<in> set ws. \<exists>c. x = Inr c)"
  then obtain cs where cs: "ws = map Inr cs" using all_converted by blast
  with h have len: "length cs = length gid" by simp
  have conv: "to_float64_all (dict_zip gid ws) = Inr (dict_zip gid cs)"
    by (simp only: cs dict_zip_map_values to_float64_all_Inr)
  have pos: "map_option Inr (map_of (dict_zip gid cs) (gid ! k)) = Some (ws ! k)"
    if "k < length gid" "\<forall>j. k < j \<and> j < length gid \<longrightarrow> gid ! j \<noteq> gid ! k" for k
    using map_of_rev_zip_last [OF len [symmetric] that] that(1) len
    by (simp add: map_of_dict_zip cs)
  show "\<exists>gs. GeneSignature_init gid (Some (WList ws)) b nfo = Inr gs
           \<and> set (genes gs) = set gid
           \<and> (\<forall>k < length gid. (\<forall>j. k < j \<and> j < length gid \<longrightarrow> gid ! j \<noteq> gid ! k)
                 \<longrightarrow> map_option Inr (map_of (gset gs) (gid ! k)) = Some (ws ! k))"
  proof (cases "length ws = 1")
    case True
    with h cs obtain c where c: "cs = [c]" "ws ! 0 = Inr c"
      by (cases cs) auto
    from True h obtain g where g: "gid = [g]"
      by (cases gid) auto
    show ?thesis
      using True c g by (simp add: GeneSignature_init_def genes_def dict_zip_def)
  next
    case False
    show ?thesis
      using False h keys_dict_zip [of gid cs] len pos
      by (simp add: GeneSignature_init_def genes_def conv)
  qed
next
  assume h: "length ws = length gid \<and> length ws \<noteq> 1
        \<and> (\<exists>k < length gid. (\<forall>j. k < j \<and> j < length gid \<longrightarrow> gid ! j \<noteq> gid ! k)
              \<and> (\<exists>e1. ws ! k = Inl e1))"
  then obtain k e1 where k: "k < length gid"
    "\<forall>j. k < j \<and> j < length gid \<longrightarrow> gid ! j \<noteq> gid ! k" and e1: "ws ! k = Inl e1"
    by blast
  from h have len: "length gid = length ws" by simp
  have "map_of (dict_zip gid ws) (gid ! k) = Some (Inl e1)"
    using map_of_rev_zip_last [OF len k] by (simp add: map_of_dict_zip e1)
  then have "(gid ! k, Inl e1) \<in> set (dict_zip gid ws)" by (rule map_of_SomeD)
  from to_float64_all_fails [OF this]
  obtain e2 where "to_float64_all (dict_zip gid ws) = Inl e2" by (elim exE)
  with h show "\<exists>e2. GeneSignature_init gid (Some (WList ws)) b nfo = Inl e2"
    by (simp add: GeneSignature_init_def)
next
  show "\<exists>gs. GeneSignature_init gid (Some (WScalar (Inr c))) b nfo = Inr gs
           \<and> set (genes gs) = set gid
           \<and> (\<forall>g \<in> set gid. map_of (gset gs) g = Some c)"
    using keys_dict_zip [of gid "replicate (length gid) c"]
    by (simp add: GeneSignature_init_def genes_def map_of_dict_zip_replicate)
next
  show "GeneSignature_init gid (Some (WScalar (Inl e))) b nfo = Inl e"
    by (simp add: GeneSignature_init_def)
qed

theorem GeneSignature_init_weights_counterexample:
  "length [float64_of_int (10 ^ 400)] = 1
   \<and> GeneSignature_init [''10'', ''20''] (Some (WList [float64_of_int (10 ^ 400)])) None ''''
        = (Inl OverflowError :: error + (string, real) GeneSignature)"
  by (simp add: GeneSignature_init_def float64_of_int_overflows del: power_numeral)

theorem GeneSignature_init_weights_witness:
  "GeneSignature_init [''10'', ''20'', ''30'']
       (Some (WList [float64_of_int 1, float64_of_int 2])) None ''x''
     = (Inl ValueError :: error + (string, real) GeneSignature)
   \<and> (\<exists>gs. GeneSignature_init [''10'', ''20'', ''30'']
              (Some (WList [float64_of_int (2 ^ 53 + 1)])) None ''x'' = Inr gs
          \<and> map_of (gset gs) ''30'' = Some (2 ^ 53))
   \<and> (\<exists>gs. GeneSignature_init [''10'', ''20'', ''30'']
              (Some (WList [float64_of_int 5, Inr 6.5, float64_of_int 7])) None ''x'' = Inr gs
          \<and> map_of (gset gs) ''20'' = Some 6.5)
   \<and> GeneSignature_init [''10'', ''20'', ''30'']
        (Some (WList [float64_of_int (10 ^ 400)])) None ''x''
       = (Inl OverflowError :: error + (string, real) GeneSignature)
   \<and> (\<exists>e. GeneSignature_init [''10'', ''20'', ''30'']
              (Some (WList [Inr 1, float64_of_int (10 ^ 400), Inr 1])) None ''x''
            = (Inl e :: error + (string, real) GeneSignature))
   \<and> (\<exists>gs. GeneSignature_init [''10'', ''20'', ''30''] (Some (WScalar (Inr (4 :: real)))) None ''x''
               = Inr gs
          \<and> map_of (gset gs) ''10'' = Some 4)"
proof -
  let ?g = "[''10'', ''20'', ''30'']"
  note ov = float64_of_int_overflows
  have a: "GeneSignature_init ?g (Some (WList [float64_of_int 1, float64_of_int 2])) None ''x''
     = (Inl ValueError :: error + (string, real) GeneSignature)"
    using GeneSignature_init_weights [where gid = ?g
        and ws = "[float64_of_int 1, float64_of_int 2]" and b = None and nfo = "''x''"]
    by simp
  have b: "\<exists>gs. GeneSignature_init ?g (Some (WList [float64_of_int (2 ^ 53 + 1)])) None ''x'' = Inr gs
          \<and> map_of (gset gs) ''30'' = Some (2 ^ 53)"
  proof -
    have h: "length [float64_of_int (2 ^ 53 + 1)] = 1
               \<and> [float64_of_int (2 ^ 53 + 1)] ! 0 = Inr (2 ^ 53)"
      by (simp only: float64_of_int_rounds) simp
    from GeneSignature_init_weights [where gid = ?g
        and ws = "[float64_of_int (2 ^ 53 + 1)]" and b = None and nfo = "''x''"
        and c = "2 ^ 53", THEN conjunct2, THEN conjunct1, THEN mp, OF h]
    show ?thesis by auto
  qed
  have c: "\<exists>gs. GeneSignature_init ?g
              (Some (WList [float64_of_int 5, Inr 6.5, float64_of_int 7])) None ''x'' = Inr gs
          \<and> map_of (gset gs) ''20'' = Some 6.5"
  proof -
    let ?ws = "[Inr 5, Inr 6.5, Inr 7] :: (error + real) list"
    have "\<exists>c. x = Inr c" if "x \<in> set ?ws" for x
    proof -
      from that have "x = Inr 5 \<or> x = Inr 6.5 \<or> x = Inr 7" by simp
      then show ?thesis by blast
    qed
    then have all: "length ?ws = length ?g \<and> (\<forall>x \<in> set ?ws. \<exists>c. x = Inr c)"
      by simp
    from GeneSignature_init_weights [where gid = ?g and ws = ?ws and b = None
        and nfo = "''x''", THEN conjunct2, THEN conjunct2, THEN conjunct2, THEN conjunct1,
        THEN mp, OF all]
    obtain gs where gs: "GeneSignature_init ?g (Some (WList ?ws)) None ''x'' = Inr gs"
      and pos: "\<forall>k < length ?g. (\<forall>j. k < j \<and> j < length ?g \<longrightarrow> ?g ! j \<noteq> ?g ! k)
                 \<longrightarrow> map_option Inr (map_of (gset gs) (?g ! k)) = Some (?ws ! k)"
      by (elim exE conjE)
    have "\<forall>j. 1 < j \<and> j < length ?g \<longrightarrow> ?g ! j \<noteq> ?g ! 1"
      by (auto simp: less_Suc_eq)
    with pos [rule_format, of 1] have "map_option Inr (map_of (gset gs) ''20'') = Some (Inr 6.5)"
      by simp
    then have "map_of (gset gs) ''20'' = Some 6.5" by auto
    with gs show ?thesis by (simp only: float64_of_small_ints) blast
  qed
  have d: "GeneSignature_init ?g (Some (WList [float64_of_int (10 ^ 400)])) None ''x''
       = (Inl OverflowError :: error + (string, real) GeneSignature)"
    using GeneSignature_init_weights [where gid = ?g
        and ws = "[float64_of_int (10 ^ 400)]" and b = None and nfo = "''x''"
        and e = OverflowError, THEN conjunct2, THEN conjunct2, THEN conjunct1]
    by (simp add: ov del: power_numeral)
  have e: "\<exists>e. GeneSignature_init ?g
              (Some (WList [Inr 1, float64_of_int (10 ^ 400), Inr 1])) None ''x''
            = (Inl e :: error + (string, real) GeneSignature)"
  proof -
    let ?ws = "[Inr 1, Inl OverflowError, Inr 1] :: (error + real) list"
    have h: "length ?ws = length ?g \<and> length ?ws \<noteq> 1
        \<and> (\<exists>k < length ?g. (\<forall>j. k < j \<and> j < length ?g \<longrightarrow> ?g ! j \<noteq> ?g ! k)
              \<and> (\<exists>e1. ?ws ! k = Inl e1))"
      by (auto intro!: exI [of _ 1] simp: less_Suc_eq)
    from GeneSignature_init_weights [where gid = ?g and ws = ?ws and b = None
        and nfo = "''x''", THEN conjunct2, THEN conjunct2, THEN conjunct2, THEN conjunct2,
        THEN conjunct1, THEN mp, OF h]
    show ?thesis by (simp only: ov)
  qed
  have f: "\<exists>gs. GeneSignature_init ?g (Some (WScalar (Inr (4 :: real)))) None ''x'' = Inr gs
          \<and> map_of (gset gs) ''10'' = Some 4"
    using GeneSignature_init_weights [where gid = ?g and ws = "[]" and b = None
        and nfo = "''x''" and c = "4 :: real"]
    by auto
  from a b c d e f show ?thesis by (intro conjI)
qed

text \<open>
  C10. \<open>remap\<close> returns \<open>None\<close> and the signature after the call has the gene set, the
  weights, the bias and the info it had before, for every argument.
\<close>

theorem remap_no_effect:
  "fst (remap gs old_to_new) = None
   \<and> snd (remap gs old_to_new) = gs
   \<and> gset (snd (remap gs old_to_new)) = gset gs
   \<and> genes (snd (remap gs old_to_new)) = genes gs
   \<and> bias (snd (remap gs old_to_new)) = bias gs
   \<and> info (snd (remap gs old_to_new)) = info gs"
  by (simp add: remap_def)

section \<open>The annotation table and its reverse index\<close>

lemma map_of_rev_last:
  "map_of (rev ps) k =
     (if k \<in> fst ` set ps then Some (snd (last (filter (\<lambda>p. fst p = k) ps))) else None)"
proof (induction ps rule: rev_induct)
  case Nil
  show ?case by simp
next
  case (snoc p ps)
  show ?case
  proof (cases "fst p = k")
    case True
    then show ?thesis by (cases p) simp
  next
    case False
    then show ?thesis using snoc by (cases p) auto
  qed
qed

lemma filter_label_unique:
  "distinct (map fst d) \<Longrightarrow> (l, r) \<in> set d \<Longrightarrow> filter (\<lambda>(l', r'). l' = l) d = [(l, r)]"
proof (induction d)
  case Nil
  then show ?case by simp
next
  case (Cons p d)
  obtain l' r' where p: "p = (l', r')" by (cases p)
  show ?case
  proof (cases "l' = l")
    case True
    with Cons.prems p have "r' = r" by (auto simp: image_iff)
    moreover have "filter (\<lambda>(l', r'). l' = l) d = []"
      using Cons.prems p True by (auto simp: filter_empty_conv image_iff)
    ultimately show ?thesis using p True by simp
  next
    case False
    with Cons p show ?thesis by auto
  qed
qed

lemma zip_map_self: "zip (map f xs) xs = map (\<lambda>x. (f x, x)) xs"
  by (induction xs) simp_all

lemma map_fst_zip_map_self: "map fst (zip (map f xs) xs) = map f xs"
  by (simp add: zip_map_self comp_def)

lemma valid_rows:
  assumes "valid_source dflt src"
  shows "read_table dflt src = Inr (map (mk_row dflt) src)"
    and "map EntrezID (map (mk_row dflt) src) = map (\<lambda>fs. Some (fs ! 0)) src"
    and "map Symbol (map (mk_row dflt) src) = map (\<lambda>fs. Some (fs ! 1)) src"
proof -
  from assms have all: "\<forall>fs \<in> set src. length fs = 6 \<and> fs ! 0 \<notin> set (''-'' # dflt) \<and> fs ! 1 \<notin> set (''-'' # dflt)"
    by (simp add: valid_source_def list_all_iff)
  then show "read_table dflt src = Inr (map (mk_row dflt) src)"
    by (simp add: read_table_def list_all_iff)
  from all show "map EntrezID (map (mk_row dflt) src) = map (\<lambda>fs. Some (fs ! 0)) src"
    by (simp add: mk_row_def field_def na_cell_def)
  from all show "map Symbol (map (mk_row dflt) src) = map (\<lambda>fs. Some (fs ! 1)) src"
    by (simp add: mk_row_def field_def na_cell_def)
qed

lemma gene_from_id_unique:
  assumes "data a = Some d" and "distinct (map fst d)" and "(Some i, r) \<in> set d"
  shows "gene_from_id a i = Inr (Scalar (Symbol r))"
  using assms(1) filter_label_unique [OF assms(2) assms(3)]
  by (simp add: gene_from_id_def)

lemma id_from_symbol_last:
  assumes "gene_to_id a = Some (dict_zip ks vs)"
  shows "id_from_symbol a k =
     (if k \<in> fst ` set (zip ks vs)
      then Inr (snd (last (filter (\<lambda>p. fst p = k) (zip ks vs)))) else Inl KeyError)"
  using assms by (simp add: id_from_symbol_def map_of_dict_zip map_of_rev_last)

text \<open>
  C4. For an annotation read from a valid six-field source and every identifier x of the
  table, \<open>gene_from_id\<close> gives the symbol of the row of x, and
  \<open>id_from_symbol(gene_from_id(x))\<close> is the identifier of the last row with that symbol:
  x itself when no other identifier shares the symbol.
\<close>

theorem symbol_roundtrip_read_from_table:
  assumes valid: "valid_source dflt src" and fs: "fs \<in> set src"
  shows "\<exists>a. read_from_table dflt self (Inr src) ver = Inr a
     \<and> gene_from_id a (fs ! 0) = Inr (Scalar (Some (fs ! 1)))
     \<and> symbol_roundtrip a (fs ! 0)
         = Inr (Some (last (map (\<lambda>f. f ! 0) (filter (\<lambda>f. f ! 1 = fs ! 1) src))))
     \<and> ((\<forall>f \<in> set src. f ! 1 = fs ! 1 \<longrightarrow> f ! 0 = fs ! 0)
           \<longrightarrow> symbol_roundtrip a (fs ! 0) = Inr (Some (fs ! 0)))"
proof -
  define rows where "rows = map (mk_row dflt) src"
  define a where "a = \<lparr>version = StrV ver, data = Some (zip (map EntrezID rows) rows),
             gene_to_id = Some (dict_zip (map Symbol rows) (map EntrezID rows))\<rparr>"
  note vr = valid_rows [OF valid, folded rows_def]
  have rd: "read_from_table dflt self (Inr src) ver = Inr a"
    by (simp add: read_from_table_def vr(1) a_def)
  have dist: "distinct (map fst (zip (map EntrezID rows) rows))"
  proof -
    have "distinct (map (\<lambda>fs. fs ! 0) src)" using valid by (simp add: valid_source_def)
    then have "distinct (map (\<lambda>fs. Some (fs ! 0)) src)"
      by (auto simp: distinct_map inj_on_def)
    then have "distinct (map EntrezID rows)" by (simp only: vr(2))
    then show ?thesis by (simp only: map_fst_zip_map_self)
  qed
  have eid: "EntrezID (mk_row dflt fs) = Some (fs ! 0)" and sym: "Symbol (mk_row dflt fs) = Some (fs ! 1)"
    using valid fs
    by (auto simp: valid_source_def list_all_iff mk_row_def field_def na_cell_def)
  have mem: "(Some (fs ! 0), mk_row dflt fs) \<in> set (zip (map EntrezID rows) rows)"
  proof -
    have "mk_row dflt fs \<in> set rows" using fs by (simp add: rows_def)
    then have "(EntrezID (mk_row dflt fs), mk_row dflt fs) \<in> (\<lambda>r. (EntrezID r, r)) ` set rows"
      by (rule imageI)
    then show ?thesis by (simp only: zip_map_self set_map eid)
  qed
  have da: "data a = Some (zip (map EntrezID rows) rows)"
    and ga: "gene_to_id a = Some (dict_zip (map Symbol rows) (map EntrezID rows))"
    by (simp_all add: a_def)
  have g: "gene_from_id a (fs ! 0) = Inr (Scalar (Some (fs ! 1)))"
    using gene_from_id_unique [OF da dist mem] by (simp only: sym)
  define ps where "ps = zip (map Symbol rows) (map EntrezID rows)"
  have ps: "ps = map (\<lambda>f. (Some (f ! 1), Some (f ! 0))) src"
    unfolding ps_def vr(2) vr(3) by (simp add: zip_map_map zip_same_conv_map)
  have inps: "Some (fs ! 1) \<in> fst ` set ps"
    using fs by (simp only: ps) (force simp: image_iff)
  have flt: "filter (\<lambda>p. fst p = Some (fs ! 1)) ps
             = map (\<lambda>f. (Some (f ! 1), Some (f ! 0))) (filter (\<lambda>f. f ! 1 = fs ! 1) src)"
    by (simp only: ps) (simp add: filter_map comp_def)
  have ne: "filter (\<lambda>f. f ! 1 = fs ! 1) src \<noteq> []"
    using fs by (auto simp: filter_empty_conv)
  have look: "id_from_symbol a (Some (fs ! 1))
          = Inr (Some (last (map (\<lambda>f. f ! 0) (filter (\<lambda>f. f ! 1 = fs ! 1) src))))"
  proof -
    have "snd (last (filter (\<lambda>p. fst p = Some (fs ! 1)) ps))
          = Some (last (map (\<lambda>f. f ! 0) (filter (\<lambda>f. f ! 1 = fs ! 1) src)))"
      using ne by (simp only: flt) (simp add: last_map)
    with id_from_symbol_last [OF ga, of "Some (fs ! 1)", folded ps_def] inps
    show ?thesis by (simp only: if_True)
  qed
  have rt: "symbol_roundtrip a (fs ! 0)
         = Inr (Some (last (map (\<lambda>f. f ! 0) (filter (\<lambda>f. f ! 1 = fs ! 1) src))))"
    by (simp only: symbol_roundtrip_def g look sum.case selection.case)
  have uniq: "symbol_roundtrip a (fs ! 0) = Inr (Some (fs ! 0))"
    if u: "\<forall>f \<in> set src. f ! 1 = fs ! 1 \<longrightarrow> f ! 0 = fs ! 0"
  proof -
    have "last (filter (\<lambda>f. f ! 1 = fs ! 1) src) \<in> set (filter (\<lambda>f. f ! 1 = fs ! 1) src)"
      using ne by (rule last_in_set)
    with u have "last (filter (\<lambda>f. f ! 1 = fs ! 1) src) ! 0 = fs ! 0" by auto
    with ne show ?thesis by (simp only: rt) (simp add: last_map)
  qed
  from rd g rt uniq show ?thesis by blast
qed

theorem symbol_roundtrip_read_from_table_witness:
  "valid_source ['''', ''NA''] example_table
   \<and> (\<exists>a. read_from_table ['''', ''NA''] (Annotation_init (IntV 0)) (Inr example_table) ''v1'' = Inr a
          \<and> symbol_roundtrip a ''200'' = Inr (Some ''200'')
          \<and> symbol_roundtrip a ''100'' = Inr (Some ''300'')
          \<and> symbol_roundtrip a ''300'' = Inr (Some ''300''))"
proof -
  let ?d = "['''', ''NA'']"
  let ?r = "read_from_table ?d (Annotation_init (IntV 0)) (Inr example_table) ''v1''"
  have v: "valid_source ?d example_table"
    by (simp add: valid_source_def example_table_def)
  have m1: "[''100'', ''GENE_A'', ''-'', ''1p36'', ''-'', ''gene a''] \<in> set example_table"
    and m2: "[''200'', ''GENE_B'', ''GB'', ''-'', ''-'', ''-''] \<in> set example_table"
    and m3: "[''300'', ''GENE_A'', ''-'', ''-'', ''-'', ''-''] \<in> set example_table"
    by (simp_all add: example_table_def)
  from symbol_roundtrip_read_from_table [OF v m2, of "Annotation_init (IntV 0)" "''v1''"]
  obtain a where a: "?r = Inr a" and r2: "symbol_roundtrip a ''200'' = Inr (Some ''200'')"
    by (auto simp: example_table_def)
  from symbol_roundtrip_read_from_table [OF v m1, of "Annotation_init (IntV 0)" "''v1''"] a
  have r1: "symbol_roundtrip a ''100'' = Inr (Some ''300'')"
    by (auto simp: example_table_def)
  from symbol_roundtrip_read_from_table [OF v m3, of "Annotation_init (IntV 0)" "''v1''"] a
  have r3: "symbol_roundtrip a ''300'' = Inr (Some ''300'')"
    by (auto simp: example_table_def)
  from v a r1 r2 r3 show ?thesis by blast
qed

section \<open>The keys of the persisted store\<close>

text \<open>
  C9. For every version string v, \<open>save\<close> stores the table under \<open>annot_\<close> followed by v
  and \<open>load\<close> reads the key \<open>annot-\<close> followed by v. The two keys have the same length
  and differ at the one position of the separator. So \<open>load\<close> after \<open>save\<close> with the same
  v does not find the table saved: it takes the frame the file holds under the hyphen key,
  which is the one it held before the save, sets the version and builds the reverse index
  from that frame; without such a frame it raises KeyError and stores no table. On a file
  that existed, \<open>load\<close> after the save does what it did before the save.
\<close>

theorem save_load_keys:
  assumes ver: "version a = StrV v" and dat: "data a = Some d"
  shows "\<exists>files1 st. save a fname files = Inr files1 \<and> files1 fname = Some st
      \<and> st (save_key v) = Some d
      \<and> st (load_key v) = (case files fname of None \<Rightarrow> None | Some st0 \<Rightarrow> st0 (load_key v))
      \<and> fst (load b fname v files1)
           = (case st (load_key v) of None \<Rightarrow> Some KeyError | Some d1 \<Rightarrow> None)
      \<and> (files fname = None \<longrightarrow> fst (load b fname v files1) = Some KeyError)
      \<and> (\<forall>d1. st (load_key v) = Some d1 \<longrightarrow>
            fst (load b fname v files1) = None
            \<and> version (snd (load b fname v files1)) = StrV v
            \<and> data (snd (load b fname v files1)) = Some d1
            \<and> gene_to_id (snd (load b fname v files1))
                 = Some (dict_zip (map (Symbol \<circ> snd) d1) (map (EntrezID \<circ> snd) d1)))
      \<and> (st (load_key v) = None \<longrightarrow>
            load b fname v files1 = (Some KeyError, b\<lparr>version := StrV v\<rparr>))
      \<and> (files fname \<noteq> None \<longrightarrow> load b fname v files1 = load b fname v files)
      \<and> save_key v \<noteq> load_key v
      \<and> length (save_key v) = length (load_key v)
      \<and> (\<forall>i < length (save_key v). i \<noteq> 5 \<longrightarrow> save_key v ! i = load_key v ! i)
      \<and> save_key v ! 5 = CHR ''_'' \<and> load_key v ! 5 = CHR ''-''"
proof -
  define st where "st = (case files fname of None \<Rightarrow> Map.empty | Some st0 \<Rightarrow> st0)(save_key v \<mapsto> d)"
  define files1 where "files1 = files(fname \<mapsto> st)"
  have ne: "save_key v \<noteq> load_key v" by (simp add: save_key_def load_key_def)
  have sv: "save a fname files = Inr files1"
    by (simp add: save_def ver dat files1_def st_def)
  have f1: "files1 fname = Some st" by (simp add: files1_def)
  have s1: "st (save_key v) = Some d" by (simp add: st_def)
  have s2: "st (load_key v) = (case files fname of None \<Rightarrow> None | Some st0 \<Rightarrow> st0 (load_key v))"
    using ne by (simp add: st_def split: option.splits)
  have ld: "fst (load b fname v files1)
           = (case st (load_key v) of None \<Rightarrow> Some KeyError | Some d1 \<Rightarrow> None)"
    by (simp add: load_def f1 Let_def split: option.splits)
  have fresh: "fst (load b fname v files1) = Some KeyError" if "files fname = None"
    using that by (simp add: ld s2)
  have found: "fst (load b fname v files1) = None
            \<and> version (snd (load b fname v files1)) = StrV v
            \<and> data (snd (load b fname v files1)) = Some d1
            \<and> gene_to_id (snd (load b fname v files1))
                 = Some (dict_zip (map (Symbol \<circ> snd) d1) (map (EntrezID \<circ> snd) d1))"
    if "st (load_key v) = Some d1" for d1
    using that by (simp add: load_def f1 Let_def)
  have missing: "load b fname v files1 = (Some KeyError, b\<lparr>version := StrV v\<rparr>)"
    if "st (load_key v) = None"
    using that by (simp add: load_def f1 Let_def)
  have same: "load b fname v files1 = load b fname v files" if "files fname \<noteq> None"
  proof -
    from that obtain st0 where st0: "files fname = Some st0" by blast
    then have "st (load_key v) = st0 (load_key v)" by (simp add: s2)
    then show ?thesis by (simp add: load_def f1 st0 Let_def)
  qed
  have nth: "save_key v ! i = load_key v ! i" if "i \<noteq> 5" for i
  proof (cases "i < 5")
    case True
    then have "i = 0 \<or> i = 1 \<or> i = 2 \<or> i = 3 \<or> i = 4" by arith
    then show ?thesis by (auto simp: save_key_def load_key_def)
  next
    case False
    with that have "6 \<le> i" by simp
    then obtain k where "i = 6 + k" using le_Suc_ex by blast
    then show ?thesis by (simp add: save_key_def load_key_def nth_append)
  qed
  have at5: "save_key v ! 5 = CHR ''_''" "load_key v ! 5 = CHR ''-''"
    by (simp_all add: save_key_def load_key_def)
  have len: "length (save_key v) = length (load_key v)"
    by (simp add: save_key_def load_key_def)
  have rest: "st (load_key v) = (case files fname of None \<Rightarrow> None | Some st0 \<Rightarrow> st0 (load_key v))
      \<and> fst (load b fname v files1)
           = (case st (load_key v) of None \<Rightarrow> Some KeyError | Some d1 \<Rightarrow> None)
      \<and> (files fname = None \<longrightarrow> fst (load b fname v files1) = Some KeyError)
      \<and> (\<forall>d1. st (load_key v) = Some d1 \<longrightarrow>
            fst (load b fname v files1) = None
            \<and> version (snd (load b fname v files1)) = StrV v
            \<and> data (snd (load b fname v files1)) = Some d1
            \<and> gene_to_id (snd (load b fname v files1))
                 = Some (dict_zip (map (Symbol \<circ> snd) d1) (map (EntrezID \<circ> snd) d1)))
      \<and> (st (load_key v) = None \<longrightarrow>
            load b fname v files1 = (Some KeyError, b\<lparr>version := StrV v\<rparr>))
      \<and> (files fname \<noteq> None \<longrightarrow> load b fname v files1 = load b fname v files)
      \<and> save_key v \<noteq> load_key v
      \<and> length (save_key v) = length (load_key v)
      \<and> (\<forall>i < length (save_key v). i \<noteq> 5 \<longrightarrow> save_key v ! i = load_key v ! i)
      \<and> save_key v ! 5 = CHR ''_'' \<and> load_key v ! 5 = CHR ''-''"
    using s2 ld fresh found missing same ne len nth at5 by (intro conjI allI impI) blast+
  show ?thesis
    by (rule exI [of _ files1], rule exI [of _ st])
      (rule conjI [OF sv], rule conjI [OF f1], rule conjI [OF s1], rule rest)
qed

theorem save_load_keys_witness:
  "\<exists>a. read_from_table ['''', ''NA''] (Annotation_init (IntV 0)) (Inr example_table) ''2014'' = Inr a
      \<and> version a = StrV ''2014''
      \<and> data a \<noteq> Some []
      \<and> (\<exists>files1 st. save a ''annot.h5'' Map.empty = Inr files1
            \<and> files1 ''annot.h5'' = Some st
            \<and> st ''annot_2014'' = data a
            \<and> st ''annot-2014'' = None
            \<and> load (Annotation_init (IntV 0)) ''annot.h5'' ''2014'' files1
                 = (Some KeyError, (Annotation_init (IntV 0))\<lparr>version := StrV ''2014''\<rparr>))
      \<and> (\<exists>files1 st. save a ''annot.h5'' [''annot.h5'' \<mapsto> [''annot-2014'' \<mapsto> []]] = Inr files1
            \<and> files1 ''annot.h5'' = Some st
            \<and> st ''annot_2014'' = data a
            \<and> fst (load (Annotation_init (IntV 0)) ''annot.h5'' ''2014'' files1) = None
            \<and> data (snd (load (Annotation_init (IntV 0)) ''annot.h5'' ''2014'' files1)) = Some [])"
proof -
  obtain a where a: "read_from_table ['''', ''NA''] (Annotation_init (IntV 0)) (Inr example_table) ''2014'' = Inr a"
    by (simp add: read_from_table_def read_table_def example_table_def)
  then have ver: "version a = StrV ''2014''"
    by (auto simp: read_from_table_def read_table_def example_table_def)
  from a obtain d where dat: "data a = Some d" and dne: "d \<noteq> []"
    by (auto simp: read_from_table_def read_table_def example_table_def)
  let ?b = "Annotation_init (IntV 0)"
  let ?old = "[''annot.h5'' \<mapsto> [''annot-2014'' \<mapsto> ([] :: frame)]]"
  from save_load_keys [OF ver dat, of "''annot.h5''" Map.empty ?b]
  obtain files1 st where n1: "save a ''annot.h5'' Map.empty = Inr files1"
    "files1 ''annot.h5'' = Some st"
    "st (save_key ''2014'') = Some d"
    "st (load_key ''2014'') = None"
    "load ?b ''annot.h5'' ''2014'' files1 = (Some KeyError, ?b\<lparr>version := StrV ''2014''\<rparr>)"
    by auto
  from save_load_keys [OF ver dat, of "''annot.h5''" ?old ?b]
  obtain files2 st2 where n2: "save a ''annot.h5'' ?old = Inr files2"
    "files2 ''annot.h5'' = Some st2"
    "st2 (save_key ''2014'') = Some d"
    "st2 (load_key ''2014'') = Some []"
    and all: "\<forall>d1. st2 (load_key ''2014'') = Some d1 \<longrightarrow>
            fst (load ?b ''annot.h5'' ''2014'' files2) = None
            \<and> version (snd (load ?b ''annot.h5'' ''2014'' files2)) = StrV ''2014''
            \<and> data (snd (load ?b ''annot.h5'' ''2014'' files2)) = Some d1
            \<and> gene_to_id (snd (load ?b ''annot.h5'' ''2014'' files2))
                 = Some (dict_zip (map (Symbol \<circ> snd) d1) (map (EntrezID \<circ> snd) d1))"
    by (auto simp: load_key_def)
  from all n2(4) have l2: "fst (load ?b ''annot.h5'' ''2014'' files2) = None"
    "data (snd (load ?b ''annot.h5'' ''2014'' files2)) = Some []"
    by blast+
  have p1: "\<exists>files1 st. save a ''annot.h5'' Map.empty = Inr files1
            \<and> files1 ''annot.h5'' = Some st
            \<and> st ''annot_2014'' = data a
            \<and> st ''annot-2014'' = None
            \<and> load ?b ''annot.h5'' ''2014'' files1
                 = (Some KeyError, ?b\<lparr>version := StrV ''2014''\<rparr>)"
    using n1 dat by (intro exI [of _ files1] exI [of _ st]) (simp add: save_key_def load_key_def)
  have p2: "\<exists>files1 st. save a ''annot.h5'' ?old = Inr files1
            \<and> files1 ''annot.h5'' = Some st
            \<and> st ''annot_2014'' = data a
            \<and> fst (load ?b ''annot.h5'' ''2014'' files1) = None
            \<and> data (snd (load ?b ''annot.h5'' ''2014'' files1)) = Some []"
    using n2 l2 dat by (intro exI [of _ files2] exI [of _ st2]) (simp add: save_key_def)
  from dat dne have "data a \<noteq> Some []" by simp
  with a ver p1 p2 show ?thesis by (intro exI [of _ a] conjI)
qed

section \<open>The loop of the delimited loader\<close>

lemma resolve_loaded:
  "gene_to_id annot \<noteq> None \<Longrightarrow> resolve annot gs = Inl e \<Longrightarrow> e = KeyError"
  by (induction gs arbitrary: e)
    (auto simp: id_from_symbol_def split: option.splits sum.splits)

lemma resolve_not_KeyError:
  assumes "gene_to_id annot \<noteq> None" and "resolve annot gs \<noteq> Inl KeyError"
  shows "\<exists>gid. resolve annot gs = Inr gid"
proof (cases "resolve annot gs")
  case (Inl e)
  from resolve_loaded [OF assms(1) Inl] Inl assms(2) show ?thesis by simp
next
  case (Inr gid)
  then show ?thesis by blast
qed

lemma resolve_fails:
  "g \<in> set gs \<Longrightarrow> id_from_symbol annot (Some g) = Inl e \<Longrightarrow> \<exists>e1. resolve annot gs = Inl e1"
  by (induction gs) (auto split: sum.splits)

lemma resolve_ids:
  "resolve annot gs = Inr ids \<Longrightarrow>
     length ids = length gs \<and> (\<forall>k < length gs. id_from_symbol annot (Some (gs ! k)) = Inr (ids ! k))"
proof (induction gs arbitrary: ids)
  case Nil
  then show ?case by simp
next
  case (Cons g gs)
  from Cons.prems obtain i ids1 where i: "id_from_symbol annot (Some g) = Inr i"
    and r: "resolve annot gs = Inr ids1" and ids: "ids = i # ids1"
    by (auto split: sum.splits)
  from Cons.IH [OF r] i ids show ?case by (auto simp: nth_Cons split: nat.splits)
qed

lemma gmt_line_step:
  assumes loaded: "gene_to_id annot \<noteq> None"
  shows "gmt_line annot (db, disc) line =
     (if \<not> gmt_well_formed line then Inl IndexError
      else if gmt_discards annot line then Inr (db, disc @ [sig_id line])
      else (case resolve annot (looked_up line) of
              Inl e \<Rightarrow> Inl e
            | Inr gid \<Rightarrow>
                Inr (db(''GS_'' @ sig_id line \<mapsto>
                       \<lparr>gset = dict_zip gid (replicate (length gid) 1), bias = 0,
                        info = gmt_url @ sig_id line\<rparr>), disc)))"
proof (cases "gmt_well_formed line")
  case False
  then show ?thesis by (simp add: gmt_line_def gmt_well_formed_def Let_def)
next
  case wf: True
  then have len: "\<not> length (str_split (CHR 0x09) line) < 2"
    by (simp add: gmt_well_formed_def)
  have nth0: "(str_split (CHR 0x09) line)
        [length (str_split (CHR 0x09) line) - 1 := strip (str_split (CHR 0x09) line ! 1)] ! 0
      = str_split (CHR 0x09) line ! 0"
    using len by simp
  show ?thesis
  proof (cases "startswith (str_split (CHR 0x09) line ! 1) ''Human''")
    case False
    then show ?thesis
      using wf len by (simp add: gmt_line_def gmt_discards_def sig_id_def Let_def)
  next
    case human: True
    show ?thesis
    proof (cases "resolve annot (looked_up line)")
      case (Inl e)
      with resolve_loaded [OF loaded Inl] have "resolve annot (looked_up line) = Inl KeyError"
        by simp
      then show ?thesis
        using wf len human nth0
        by (simp add: gmt_line_def gmt_discards_def sig_id_def Let_def looked_up_def)
    next
      case (Inr gid)
      then show ?thesis
        using wf len human
        by (simp add: gmt_line_def gmt_discards_def sig_id_def Let_def looked_up_def
            GeneSignature_init_def)
    qed
  qed
qed

lemma gmt_lines_append:
  "gmt_lines annot st (xs @ ys) =
     (case gmt_lines annot st xs of Inl e \<Rightarrow> Inl e | Inr st1 \<Rightarrow> gmt_lines annot st1 ys)"
  by (induction xs arbitrary: st) (auto split: sum.splits)

lemma gmt_line_returns:
  assumes loaded: "gene_to_id annot \<noteq> None" and wf: "gmt_well_formed l"
  shows "\<exists>st1. gmt_line annot st l = Inr st1"
proof -
  obtain db disc where st: "st = (db, disc)" by (cases st)
  show ?thesis
  proof (cases "gmt_discards annot l")
    case True
    with wf show ?thesis by (simp add: st gmt_line_step [OF loaded])
  next
    case False
    then have "resolve annot (looked_up l) \<noteq> Inl KeyError"
      by (simp add: gmt_discards_def split: if_splits)
    from resolve_not_KeyError [OF loaded this]
    obtain gid where "resolve annot (looked_up l) = Inr gid" by blast
    with wf False show ?thesis by (simp add: st gmt_line_step [OF loaded])
  qed
qed

lemma gmt_lines_ill_formed:
  assumes loaded: "gene_to_id annot \<noteq> None"
  shows "\<not> list_all gmt_well_formed ls \<Longrightarrow> gmt_lines annot st ls = Inl IndexError"
proof (induction ls arbitrary: st)
  case Nil
  then show ?case by simp
next
  case (Cons l ls)
  obtain db disc where st: "st = (db, disc)" by (cases st)
  show ?case
  proof (cases "gmt_well_formed l")
    case False
    then show ?thesis by (simp add: st gmt_line_step [OF loaded])
  next
    case True
    with Cons.prems have rest: "\<not> list_all gmt_well_formed ls" by simp
    from gmt_line_returns [OF loaded True, of st]
    obtain st1 where "gmt_line annot st l = Inr st1" by blast
    with Cons.IH [OF rest, of st1] show ?thesis by simp
  qed
qed

lemma gmt_lines_well_formed:
  assumes loaded: "gene_to_id annot \<noteq> None"
  shows "list_all gmt_well_formed ls \<Longrightarrow>
     \<exists>db1. gmt_lines annot (db, disc) ls
              = Inr (db1, disc @ map sig_id (filter (gmt_discards annot) ls))
        \<and> dom db1 = dom db \<union> (\<lambda>l. ''GS_'' @ sig_id l) ` {l \<in> set ls. \<not> gmt_discards annot l}"
proof (induction ls arbitrary: db disc)
  case Nil
  then show ?case by simp
next
  case (Cons l ls)
  then have wf: "gmt_well_formed l" and rest: "list_all gmt_well_formed ls" by simp_all
  let ?K = "\<lambda>xs. (\<lambda>l. ''GS_'' @ sig_id l) ` {x \<in> set xs. \<not> gmt_discards annot x}"
  show ?case
  proof (cases "gmt_discards annot l")
    case True
    have step: "gmt_line annot (db, disc) l = Inr (db, disc @ [sig_id l])"
      using True wf by (simp add: gmt_line_step [OF loaded])
    from Cons.IH [OF rest, of db "disc @ [sig_id l]"]
    obtain db1 where run: "gmt_lines annot (db, disc @ [sig_id l]) ls
              = Inr (db1, (disc @ [sig_id l]) @ map sig_id (filter (gmt_discards annot) ls))"
      and d: "dom db1 = dom db \<union> ?K ls"
      by (elim exE conjE)
    have a: "gmt_lines annot (db, disc) (l # ls)
            = Inr (db1, disc @ map sig_id (filter (gmt_discards annot) (l # ls)))"
      using step run True by simp
    have "{x \<in> set (l # ls). \<not> gmt_discards annot x} = {x \<in> set ls. \<not> gmt_discards annot x}"
      using True by auto
    then have b: "dom db1 = dom db \<union> ?K (l # ls)"
      by (simp only: d)
    from a b show ?thesis by (intro exI [of _ db1] conjI)
  next
    case False
    then have "resolve annot (looked_up l) \<noteq> Inl KeyError"
      by (simp add: gmt_discards_def split: if_splits)
    from resolve_not_KeyError [OF loaded this]
    obtain gid where gid: "resolve annot (looked_up l) = Inr gid" by (elim exE)
    define gs :: "(cell, 'a) GeneSignature"
      where "gs = \<lparr>gset = dict_zip gid (replicate (length gid) 1), bias = 0,
                info = gmt_url @ sig_id l\<rparr>"
    define db0 where "db0 = db(''GS_'' @ sig_id l \<mapsto> gs)"
    have step: "gmt_line annot (db, disc) l = Inr (db0, disc)"
      using False wf gid by (simp add: gmt_line_step [OF loaded] db0_def gs_def)
    from Cons.IH [OF rest, of db0 disc]
    obtain db1 where run: "gmt_lines annot (db0, disc) ls
              = Inr (db1, disc @ map sig_id (filter (gmt_discards annot) ls))"
      and d: "dom db1 = dom db0 \<union> ?K ls"
      by (elim exE conjE)
    have a: "gmt_lines annot (db, disc) (l # ls)
            = Inr (db1, disc @ map sig_id (filter (gmt_discards annot) (l # ls)))"
      using step run False by simp
    have s: "{x \<in> set (l # ls). \<not> gmt_discards annot x}
               = insert l {x \<in> set ls. \<not> gmt_discards annot x}"
      using False by auto
    have d0: "dom db0 = insert (''GS_'' @ sig_id l) (dom db)" by (simp add: db0_def)
    have b: "dom db1 = dom db \<union> ?K (l # ls)"
      by (simp only: d d0 s image_insert) blast
    from a b show ?thesis by (intro exI [of _ db1] conjI)
  qed
qed

section \<open>The example inputs evaluated\<close>

lemma spec_tokens:
  "str_split (CHR 0x09) spec_line = [''SIG1'', ''Human-derived'', ''GENE_A'', ''GENE_B'' @ [CHR 0x0A]]"
  by (simp add: spec_line_def)

lemma strip_human: "strip ''Human-derived'' = ''Human-derived''"
  by (simp add: strip_def isspace_def)

lemma spec_annot:
  "read_from_table dflt (Annotation_init (IntV 0)) (Inr spec_table) ver =
     Inr \<lparr>version = StrV ver,
          data = Some (zip (map EntrezID (map (mk_row dflt) spec_table)) (map (mk_row dflt) spec_table)),
          gene_to_id = Some (dict_zip (map Symbol (map (mk_row dflt) spec_table))
                                      (map EntrezID (map (mk_row dflt) spec_table)))\<rparr>"
  by (simp add: read_from_table_def read_table_def spec_table_def)

lemma marker_tokens:
  "str_split (CHR 0x09) marker_line = [''SIG1'', ''Human'', ''GENE_A'', ''GENE_B'' @ [CHR 0x0A]]"
  by (simp add: marker_line_def)

lemma bare_tokens:
  "str_split (CHR 0x09) bare_line = [''SIG1'', ''Human'' @ [CHR 0x0A]]"
  by (simp add: bare_line_def)

lemma nope_tokens:
  "str_split (CHR 0x09) nope_line = [''SIG1'', ''Human'', ''NOPE'', ''GENE_A'' @ [CHR 0x0A]]"
  by (simp add: nope_line_def)

lemma strip_marker: "strip ''Human'' = ''Human''" "strip (''Human'' @ [CHR 0x0A]) = ''Human''"
  by (simp_all add: strip_def isspace_def)

lemma spec_index:
  assumes "read_from_table [] (Annotation_init (IntV 0)) (Inr spec_table) ver = Inr a"
  shows "gene_to_id a = Some [(Some ''GENE_A'', Some ''100''), (Some ''GENE_B'', Some ''200'')]"
  using assms
  by (auto simp: read_from_table_def read_table_def spec_table_def mk_row_def field_def
      na_cell_def dict_zip_def)

lemma marker_index:
  assumes "read_from_table [] (Annotation_init (IntV 0)) (Inr marker_table) ver = Inr a"
  shows "gene_to_id a = Some [(Some ''GENE_A'', Some ''100''), (Some ''Human'', Some ''999'')]"
  using assms
  by (auto simp: read_from_table_def read_table_def marker_table_def mk_row_def field_def
      na_cell_def dict_zip_def)

lemma tables_read:
  "\<exists>a. read_from_table [] (Annotation_init (IntV 0)) (Inr spec_table) ver = Inr a"
  "\<exists>a. read_from_table [] (Annotation_init (IntV 0)) (Inr marker_table) ver = Inr a"
  by (simp_all add: read_from_table_def read_table_def spec_table_def marker_table_def)

lemma untabbed_tokens: "str_split (CHR 0x09) untabbed_line = [''SIG2'' @ [CHR 0x0A]]"
  by (simp add: untabbed_line_def)

section \<open>The delimited loader on the example of the specification\<close>

text \<open>
  C1. On the line \<open>SIG1\tHuman-derived\tGENE_A\tGENE_B\n\<close>, with GENE_A resolving to
  100 and GENE_B to 200, the loader does not look up GENE_B: the last token is replaced by
  the stripped second token, so the symbols looked up are GENE_A and Human-derived. The
  second lookup raises KeyError, SIG1 goes to the discard list and the output has no key
  GS_SIG1.
\<close>

theorem load_gmt_spec_example:
  "\<exists>a. read_from_table [] (Annotation_init (IntV 0)) (Inr spec_table) ''v1'' = Inr a
      \<and> id_from_symbol a (Some ''GENE_A'') = Inr (Some ''100'')
      \<and> id_from_symbol a (Some ''GENE_B'') = Inr (Some ''200'')
      \<and> looked_up spec_line = [''GENE_A'', ''Human-derived'']
      \<and> id_from_symbol a (Some ''Human-derived'') = Inl KeyError
      \<and> (\<exists>db :: string \<rightharpoonup> (cell, real) GeneSignature.
            load_gmt_genesigdb (Inr [spec_line]) a = Inr (db, [''SIG1''])
            \<and> db ''GS_SIG1'' = None)"
proof -
  define a where "a = \<lparr>version = StrV ''v1'',
          data = Some (zip (map EntrezID (map (mk_row []) spec_table)) (map (mk_row []) spec_table)),
          gene_to_id = Some (dict_zip (map Symbol (map (mk_row []) spec_table))
                                      (map EntrezID (map (mk_row []) spec_table)))\<rparr>"
  have rd: "read_from_table [] (Annotation_init (IntV 0)) (Inr spec_table) ''v1'' = Inr a"
    by (simp only: spec_annot a_def)
  have g: "gene_to_id a = Some [(Some ''GENE_A'', Some ''100''), (Some ''GENE_B'', Some ''200'')]"
    by (simp add: a_def spec_table_def mk_row_def field_def na_cell_def dict_zip_def)
  have ga: "id_from_symbol a (Some ''GENE_A'') = Inr (Some ''100'')"
    and gb: "id_from_symbol a (Some ''GENE_B'') = Inr (Some ''200'')"
    and gh: "id_from_symbol a (Some ''Human-derived'') = Inl KeyError"
    by (simp_all add: id_from_symbol_def g)
  have lu: "looked_up spec_line = [''GENE_A'', ''Human-derived'']"
    by (simp add: looked_up_def spec_tokens strip_human)
  have res: "resolve a (looked_up spec_line) = Inl KeyError"
    by (simp add: lu ga gh)
  have step: "gmt_line a (Map.empty :: string \<rightharpoonup> (cell, real) GeneSignature, []) spec_line
                = Inr (Map.empty, [''SIG1''])"
    using res
    by (simp add: gmt_line_def spec_tokens strip_human startswith_def looked_up_def Let_def)
  have ld: "load_gmt_genesigdb (Inr [spec_line]) a
              = Inr (Map.empty :: string \<rightharpoonup> (cell, real) GeneSignature, [''SIG1''])"
    by (simp add: load_gmt_genesigdb_def step)
  show ?thesis
    by (rule exI [of _ a]) (simp add: rd ga gb gh lu ld)
qed

section \<open>Lines with a symbol that does not resolve\<close>

lemma gmt_lines_keys:
  assumes loaded: "gene_to_id annot \<noteq> None"
    and run: "gmt_lines annot (Map.empty, []) ls = Inr (dbf, discf)"
  shows "discf = map sig_id (filter (gmt_discards annot) ls)"
    and "dom dbf = (\<lambda>l. ''GS_'' @ sig_id l) ` {l \<in> set ls. \<not> gmt_discards annot l}"
proof -
  have wf: "list_all gmt_well_formed ls"
  proof (rule ccontr)
    assume "\<not> list_all gmt_well_formed ls"
    from gmt_lines_ill_formed
      [OF loaded this, of "(Map.empty :: string \<rightharpoonup> (cell, 'a) GeneSignature, [])"] run
    show False by simp
  qed
  from gmt_lines_well_formed
    [OF loaded wf, of "Map.empty :: string \<rightharpoonup> (cell, 'a) GeneSignature" "[]"]
  obtain db1 :: "string \<rightharpoonup> (cell, 'a) GeneSignature"
    where r: "gmt_lines annot (Map.empty, []) ls
              = Inr (db1, [] @ map sig_id (filter (gmt_discards annot) ls))"
    and d: "dom db1 = dom (Map.empty :: string \<rightharpoonup> (cell, 'a) GeneSignature)
               \<union> (\<lambda>l. ''GS_'' @ sig_id l) ` {l \<in> set ls. \<not> gmt_discards annot l}"
    by (elim exE conjE)
  from r run have e: "dbf = db1" and f: "discf = map sig_id (filter (gmt_discards annot) ls)"
    by simp_all
  show "discf = map sig_id (filter (gmt_discards annot) ls)" by (rule f)
  show "dom dbf = (\<lambda>l. ''GS_'' @ sig_id l) ` {l \<in> set ls. \<not> gmt_discards annot l}"
    using d by (simp only: e dom_empty Un_empty_left)
qed

lemma unresolved_symbol_discards:
  assumes human: "startswith (str_split (CHR 0x09) line ! 1) ''Human''"
    and j: "2 \<le> j" "j < length (str_split (CHR 0x09) line) - 1"
    and fail: "id_from_symbol annot (Some (str_split (CHR 0x09) line ! j)) = Inl KeyError"
  shows "gene_to_id annot \<noteq> None" and "gmt_well_formed line" and "gmt_discards annot line"
proof -
  define tokens where "tokens = str_split (CHR 0x09) line"
  show loaded: "gene_to_id annot \<noteq> None"
    using fail by (auto simp: id_from_symbol_def split: option.splits)
  show wf: "gmt_well_formed line"
    using j by (simp add: gmt_well_formed_def)
  have lu: "looked_up line = drop 2 (tokens[length tokens - 1 := strip (tokens ! 1)])"
    by (simp add: looked_up_def tokens_def Let_def)
  have jl: "j - 2 < length (looked_up line)"
    using j by (simp add: lu tokens_def)
  have jj: "2 + (j - 2) = j" using j by arith
  define tokens1 where "tokens1 = tokens[length tokens - 1 := strip (tokens ! 1)]"
  have "drop 2 tokens1 ! (j - 2) = tokens1 ! (2 + (j - 2))"
    using j by (intro nth_drop) (simp add: tokens1_def tokens_def)
  also have "\<dots> = tokens1 ! j" by (simp only: jj)
  also have "\<dots> = tokens ! j" using j by (simp add: tokens1_def tokens_def)
  finally have "looked_up line ! (j - 2) = tokens ! j" by (simp only: lu tokens1_def)
  with jl have "tokens ! j \<in> set (looked_up line)"
    by (metis nth_mem)
  from resolve_fails [OF this fail [folded tokens_def]]
  obtain e1 where e1: "resolve annot (looked_up line) = Inl e1" by (elim exE)
  from resolve_loaded [OF loaded e1] e1
  have res: "resolve annot (looked_up line) = Inl KeyError" by simp
  show "gmt_discards annot line"
    using human res by (simp add: gmt_discards_def)
qed

text \<open>
  C2, as amended. For a line that passes the organism filter, if a gene symbol that
  stands before the last token of the line does not resolve (KeyError), the loop body
  appends the signature id to the discard list, leaves the mapping as it was and raises
  nothing, so the loader goes on with the lines that follow. In the result of a load that
  returns, the signature id is in the discard list, and the key \<open>GS_\<close> followed by the
  id is in the mapping only if another line with the same id was not discarded.
\<close>

theorem gmt_unresolved_symbol_discards:
  assumes human: "startswith (str_split (CHR 0x09) line ! 1) ''Human''"
    and j: "2 \<le> j" "j < length (str_split (CHR 0x09) line) - 1"
    and fail: "id_from_symbol annot (Some (str_split (CHR 0x09) line ! j)) = Inl KeyError"
  shows "gmt_line annot (db, disc) line = Inr (db, disc @ [sig_id line])
     \<and> gmt_lines annot st (pre @ line # post)
         = (case gmt_lines annot st pre of
              Inl e \<Rightarrow> Inl e
            | Inr (db1, disc1) \<Rightarrow> gmt_lines annot (db1, disc1 @ [sig_id line]) post)
     \<and> (\<forall>dbf discf. load_gmt_genesigdb (Inr (pre @ line # post)) annot = Inr (dbf, discf) \<longrightarrow>
           sig_id line \<in> set discf
           \<and> (dbf (''GS_'' @ sig_id line) \<noteq> None \<longrightarrow>
                (\<exists>l \<in> set (pre @ post). sig_id l = sig_id line \<and> \<not> gmt_discards annot l)))"
proof (intro conjI allI impI)
  note u = unresolved_symbol_discards [OF human j fail]
  show "gmt_line annot (db, disc) line = Inr (db, disc @ [sig_id line])"
    using u(2) u(3) by (simp add: gmt_line_step [OF u(1)])
  show "gmt_lines annot st (pre @ line # post)
         = (case gmt_lines annot st pre of
              Inl e \<Rightarrow> Inl e
            | Inr (db1, disc1) \<Rightarrow> gmt_lines annot (db1, disc1 @ [sig_id line]) post)"
    using u(2) u(3)
    by (simp add: gmt_lines_append gmt_line_step [OF u(1)] split: sum.splits prod.splits)
  fix dbf discf
  assume ld: "load_gmt_genesigdb (Inr (pre @ line # post)) annot = Inr (dbf, discf)"
  then have run: "gmt_lines annot (Map.empty, []) (pre @ line # post) = Inr (dbf, discf)"
    by (simp add: load_gmt_genesigdb_def)
  note k = gmt_lines_keys [OF u(1) run]
  show "sig_id line \<in> set discf"
    using u(3) by (simp add: k(1))
  assume "dbf (''GS_'' @ sig_id line) \<noteq> None"
  then have "''GS_'' @ sig_id line \<in> dom dbf" by (simp add: dom_def)
  then obtain l where l: "l \<in> set (pre @ line # post)" "\<not> gmt_discards annot l"
    and eq: "''GS_'' @ sig_id line = ''GS_'' @ sig_id l"
    unfolding k(2) by blast
  from l u(3) have "l \<in> set (pre @ post)" by auto
  with l eq show "\<exists>l \<in> set (pre @ post). sig_id l = sig_id line \<and> \<not> gmt_discards annot l"
    by auto
qed

lemma marker_load:
  assumes g: "gene_to_id a = Some [(Some ''GENE_A'', Some ''100''), (Some ''Human'', Some ''999'')]"
  shows "load_gmt_genesigdb (Inr [marker_line]) a
     = Inr ([''GS_SIG1'' \<mapsto> \<lparr>gset = [(Some ''100'', 1 :: real), (Some ''999'', 1)], bias = 0,
                                info = gmt_url @ ''SIG1''\<rparr>], [])"
proof -
  have res: "resolve a [''GENE_A'', ''Human''] = Inr [Some ''100'', Some ''999'']"
    by (simp add: id_from_symbol_def g)
  have "gmt_line a (Map.empty :: string \<rightharpoonup> (cell, real) GeneSignature, []) marker_line
        = Inr ([''GS_SIG1'' \<mapsto> \<lparr>gset = [(Some ''100'', 1 :: real), (Some ''999'', 1)], bias = 0,
                                info = gmt_url @ ''SIG1''\<rparr>], [])"
    by (simp add: gmt_line_def marker_tokens strip_marker startswith_def Let_def
        id_from_symbol_def g GeneSignature_init_def dict_zip_def)
  then show ?thesis by (simp add: load_gmt_genesigdb_def)
qed

lemma bare_nope_load:
  assumes g: "gene_to_id a = Some [(Some ''GENE_A'', Some ''100''), (Some ''GENE_B'', Some ''200'')]"
  shows "load_gmt_genesigdb (Inr [bare_line, nope_line]) a
     = Inr ([''GS_SIG1'' \<mapsto> \<lparr>gset = ([] :: (cell \<times> real) list), bias = 0,
                                info = gmt_url @ ''SIG1''\<rparr>], [''SIG1''])"
proof -
  let ?db = "[''GS_SIG1'' \<mapsto> \<lparr>gset = ([] :: (cell \<times> real) list), bias = 0,
                                info = gmt_url @ ''SIG1''\<rparr>]"
  have res: "resolve a [''NOPE'', ''Human''] = Inl KeyError"
    by (simp add: id_from_symbol_def g)
  have l1: "gmt_line a (Map.empty :: string \<rightharpoonup> (cell, real) GeneSignature, []) bare_line
        = Inr (?db, [])"
    by (simp add: gmt_line_def bare_tokens strip_marker startswith_def Let_def
        GeneSignature_init_def dict_zip_def)
  have l2: "gmt_line a (?db, []) nope_line = Inr (?db, [''SIG1''])"
    by (simp add: gmt_line_def nope_tokens strip_marker startswith_def Let_def
        id_from_symbol_def g)
  show ?thesis by (simp add: load_gmt_genesigdb_def l1 l2)
qed

theorem gmt_unresolved_counterexample:
  "(\<exists>a. read_from_table [] (Annotation_init (IntV 0)) (Inr marker_table) ''v1'' = Inr a
      \<and> id_from_symbol a (Some ''GENE_B'') = Inl KeyError
      \<and> (\<exists>(db :: string \<rightharpoonup> (cell, real) GeneSignature) gs.
            load_gmt_genesigdb (Inr [marker_line]) a = Inr (db, [])
            \<and> db ''GS_SIG1'' = Some gs \<and> genes gs = [Some ''100'', Some ''999'']))
   \<and> (\<exists>a. read_from_table [] (Annotation_init (IntV 0)) (Inr spec_table) ''v1'' = Inr a
      \<and> id_from_symbol a (Some ''NOPE'') = Inl KeyError
      \<and> (\<exists>(db :: string \<rightharpoonup> (cell, real) GeneSignature) gs.
            load_gmt_genesigdb (Inr [bare_line, nope_line]) a = Inr (db, [''SIG1''])
            \<and> db ''GS_SIG1'' = Some gs))"
proof (rule conjI)
  from tables_read(2) [where ver = "''v1''"] obtain a
    where a: "read_from_table [] (Annotation_init (IntV 0)) (Inr marker_table) ''v1'' = Inr a"
    by (elim exE)
  note g = marker_index [OF a]
  have f: "id_from_symbol a (Some ''GENE_B'') = Inl KeyError"
    by (simp add: id_from_symbol_def g)
  show "\<exists>a. read_from_table [] (Annotation_init (IntV 0)) (Inr marker_table) ''v1'' = Inr a
      \<and> id_from_symbol a (Some ''GENE_B'') = Inl KeyError
      \<and> (\<exists>(db :: string \<rightharpoonup> (cell, real) GeneSignature) gs.
            load_gmt_genesigdb (Inr [marker_line]) a = Inr (db, [])
            \<and> db ''GS_SIG1'' = Some gs \<and> genes gs = [Some ''100'', Some ''999''])"
    by (rule exI [of _ a]) (simp add: a f marker_load [OF g] genes_def)
next
  from tables_read(1) [where ver = "''v1''"] obtain a
    where a: "read_from_table [] (Annotation_init (IntV 0)) (Inr spec_table) ''v1'' = Inr a"
    by (elim exE)
  note g = spec_index [OF a]
  have f: "id_from_symbol a (Some ''NOPE'') = Inl KeyError"
    by (simp add: id_from_symbol_def g)
  show "\<exists>a. read_from_table [] (Annotation_init (IntV 0)) (Inr spec_table) ''v1'' = Inr a
      \<and> id_from_symbol a (Some ''NOPE'') = Inl KeyError
      \<and> (\<exists>(db :: string \<rightharpoonup> (cell, real) GeneSignature) gs.
            load_gmt_genesigdb (Inr [bare_line, nope_line]) a = Inr (db, [''SIG1''])
            \<and> db ''GS_SIG1'' = Some gs)"
    by (rule exI [of _ a]) (simp add: a f bare_nope_load [OF g])
qed

theorem gmt_unresolved_symbol_discards_witness:
  "\<exists>a. read_from_table [] (Annotation_init (IntV 0)) (Inr spec_table) ''v1'' = Inr a
      \<and> startswith (str_split (CHR 0x09) nope_line ! 1) ''Human''
      \<and> id_from_symbol a (Some (str_split (CHR 0x09) nope_line ! 2)) = Inl KeyError
      \<and> gmt_line a (Map.empty :: string \<rightharpoonup> (cell, real) GeneSignature, []) nope_line
            = Inr (Map.empty, [''SIG1''])"
proof -
  from tables_read(1) [where ver = "''v1''"] obtain a
    where a: "read_from_table [] (Annotation_init (IntV 0)) (Inr spec_table) ''v1'' = Inr a"
    by (elim exE)
  note g = spec_index [OF a]
  have human: "startswith (str_split (CHR 0x09) nope_line ! 1) ''Human''"
    by (simp add: nope_tokens startswith_def)
  have j: "(2 :: nat) \<le> 2" "2 < length (str_split (CHR 0x09) nope_line) - 1"
    by (simp_all add: nope_tokens)
  have fail: "id_from_symbol a (Some (str_split (CHR 0x09) nope_line ! 2)) = Inl KeyError"
    by (simp add: nope_tokens id_from_symbol_def g)
  have sid: "sig_id nope_line = ''SIG1''"
    by (simp add: sig_id_def nope_tokens)
  from gmt_unresolved_symbol_discards [OF human j fail,
      of "Map.empty :: string \<rightharpoonup> (cell, real) GeneSignature" "[]", THEN conjunct1]
  have "gmt_line a (Map.empty :: string \<rightharpoonup> (cell, real) GeneSignature, []) nope_line
            = Inr (Map.empty, [''SIG1''])"
    by (simp add: sid)
  with a human fail show ?thesis by (intro exI [of _ a] conjI)
qed

section \<open>The loop of the markup loader\<close>

lemma xml_entry_ill_formed:
  "\<not> xml_well_formed attrib \<Longrightarrow> xml_entry st attrib = Inl KeyError"
  by (cases st)
    (auto simp: xml_entry_def xml_well_formed_def split: option.splits if_splits)

lemma xml_entry_discarded:
  "xml_well_formed attrib \<Longrightarrow> xml_discards attrib \<Longrightarrow>
     xml_entry (db, disc) attrib = Inr (db, disc @ [xml_name attrib])"
  by (auto simp: xml_entry_def xml_well_formed_def xml_discards_def xml_name_def
      split: option.splits if_splits)

lemma xml_entry_kept:
  "xml_well_formed attrib \<Longrightarrow> \<not> xml_discards attrib \<Longrightarrow>
     \<exists>k gs. xml_key attrib = Some k \<and> xml_entry (db, disc) attrib = Inr (db(k \<mapsto> gs), disc)"
  by (auto simp: xml_entry_def xml_well_formed_def xml_discards_def xml_key_def
      GeneSignature_init_def split: option.splits if_splits)

lemma xml_entries_append:
  "xml_entries st (xs @ ys) =
     (case xml_entries st xs of Inl e \<Rightarrow> Inl e | Inr st1 \<Rightarrow> xml_entries st1 ys)"
  by (induction xs arbitrary: st) (auto split: sum.splits)

lemma xml_entries_ill_formed:
  "\<not> list_all xml_well_formed sigs \<Longrightarrow> xml_entries st sigs = Inl KeyError"
proof (induction sigs arbitrary: st)
  case Nil
  then show ?case by simp
next
  case (Cons s sigs)
  obtain db disc where st: "st = (db, disc)" by (cases st)
  show ?case
  proof (cases "xml_well_formed s")
    case False
    then show ?thesis by (simp add: xml_entry_ill_formed)
  next
    case True
    with Cons.prems have rest: "\<not> list_all xml_well_formed sigs" by simp
    show ?thesis
    proof (cases "xml_discards s")
      case d: True
      show ?thesis
        by (simp add: st xml_entry_discarded [OF True d] Cons.IH [OF rest])
    next
      case d: False
      from xml_entry_kept [OF True d, of db disc]
      obtain k gs where "xml_entry (db, disc) s = Inr (db(k \<mapsto> gs), disc)"
        by (elim exE conjE)
      then show ?thesis by (simp add: st Cons.IH [OF rest])
    qed
  qed
qed

lemma xml_entries_well_formed:
  "list_all xml_well_formed sigs \<Longrightarrow>
     \<exists>db1. xml_entries (db, disc) sigs
              = Inr (db1, disc @ map xml_name (filter xml_discards sigs))
        \<and> dom db1 = dom db \<union> {k. \<exists>h \<in> set sigs. \<not> xml_discards h \<and> xml_key h = Some k}"
proof (induction sigs arbitrary: db disc)
  case Nil
  then show ?case by simp
next
  case (Cons s sigs)
  then have wf: "xml_well_formed s" and rest: "list_all xml_well_formed sigs" by simp_all
  let ?K = "\<lambda>xs. {k. \<exists>h \<in> set xs. \<not> xml_discards h \<and> xml_key h = Some k}"
  show ?case
  proof (cases "xml_discards s")
    case True
    note step = xml_entry_discarded [OF wf True, of db disc]
    from Cons.IH [OF rest, of db "disc @ [xml_name s]"]
    obtain db1 where run: "xml_entries (db, disc @ [xml_name s]) sigs
              = Inr (db1, (disc @ [xml_name s]) @ map xml_name (filter xml_discards sigs))"
      and d: "dom db1 = dom db \<union> ?K sigs"
      by (elim exE conjE)
    have a: "xml_entries (db, disc) (s # sigs)
            = Inr (db1, disc @ map xml_name (filter xml_discards (s # sigs)))"
      using step run True by simp
    have "?K (s # sigs) = ?K sigs" using True by auto
    then have b: "dom db1 = dom db \<union> ?K (s # sigs)" by (simp only: d)
    from a b show ?thesis by (intro exI [of _ db1] conjI)
  next
    case False
    from xml_entry_kept [OF wf False, of db disc]
    obtain k gs where k: "xml_key s = Some k"
      and step: "xml_entry (db, disc) s = Inr (db(k \<mapsto> gs), disc)"
      by (elim exE conjE)
    define db0 where "db0 = db(k \<mapsto> gs)"
    from Cons.IH [OF rest, of db0 disc]
    obtain db1 where run: "xml_entries (db0, disc) sigs
              = Inr (db1, disc @ map xml_name (filter xml_discards sigs))"
      and d: "dom db1 = dom db0 \<union> ?K sigs"
      by (elim exE conjE)
    have a: "xml_entries (db, disc) (s # sigs)
            = Inr (db1, disc @ map xml_name (filter xml_discards (s # sigs)))"
      using step run False by (simp add: db0_def)
    have s: "?K (s # sigs) = insert k (?K sigs)" using False k by auto
    have d0: "dom db0 = insert k (dom db)" by (simp add: db0_def)
    have b: "dom db1 = dom db \<union> ?K (s # sigs)"
      by (simp only: d d0 s) blast
    from a b show ?thesis by (intro exI [of _ db1] conjI)
  qed
qed

section \<open>Markup entries of another organism\<close>

lemma xml_entries_keys:
  assumes run: "xml_entries (Map.empty, []) sigs = Inr (dbf, discf)"
  shows "discf = map xml_name (filter xml_discards sigs)"
    and "dom dbf = {k. \<exists>h \<in> set sigs. \<not> xml_discards h \<and> xml_key h = Some k}"
proof -
  have wf: "list_all xml_well_formed sigs"
  proof (rule ccontr)
    assume "\<not> list_all xml_well_formed sigs"
    from xml_entries_ill_formed
      [OF this, of "(Map.empty :: string \<rightharpoonup> (string, 'a) GeneSignature, [])"] run
    show False by simp
  qed
  from xml_entries_well_formed
    [OF wf, of "Map.empty :: string \<rightharpoonup> (string, 'a) GeneSignature" "[]"]
  obtain db1 :: "string \<rightharpoonup> (string, 'a) GeneSignature"
    where r: "xml_entries (Map.empty, []) sigs
              = Inr (db1, [] @ map xml_name (filter xml_discards sigs))"
    and d: "dom db1 = dom (Map.empty :: string \<rightharpoonup> (string, 'a) GeneSignature)
               \<union> {k. \<exists>h \<in> set sigs. \<not> xml_discards h \<and> xml_key h = Some k}"
    by (elim exE conjE)
  from r run have e: "dbf = db1" and f: "discf = map xml_name (filter xml_discards sigs)"
    by simp_all
  show "discf = map xml_name (filter xml_discards sigs)" by (rule f)
  show "dom dbf = {k. \<exists>h \<in> set sigs. \<not> xml_discards h \<and> xml_key h = Some k}"
    using d by (simp only: e dom_empty Un_empty_left)
qed

text \<open>
  C8, as amended. For a GENESET element whose ORGANISM is not exactly
  \<open>Homo sapiens\<close> the loop body appends the systematic name of the element to the discard
  list and leaves the mapping as it was. In the result of a load that returns, the name is
  in the discard list and every key of the mapping comes from a \<open>Homo sapiens\<close> element
  of the file: the key of the discarded element is in the mapping only if such an element
  has the same category code and systematic name.
\<close>

theorem xml_other_organism_discarded:
  assumes org: "attrib ''ORGANISM'' = Some org" "org \<noteq> ''Homo sapiens''"
    and name: "attrib ''SYSTEMATIC_NAME'' = Some n"
  shows "xml_entry (db, disc) attrib = Inr (db, disc @ [n])
     \<and> xml_entries st (pre @ attrib # post)
         = (case xml_entries st pre of
              Inl e \<Rightarrow> Inl e
            | Inr (db1, disc1) \<Rightarrow> xml_entries (db1, disc1 @ [n]) post)
     \<and> (\<forall>dbf discf. load_xml_msigdb (Inr (pre @ attrib # post)) = Inr (dbf, discf) \<longrightarrow>
           n \<in> set discf
           \<and> (\<forall>k. dbf k \<noteq> None \<longrightarrow>
                (\<exists>h \<in> set (pre @ post). h ''ORGANISM'' = Some ''Homo sapiens''
                    \<and> xml_key h = Some k)))"
proof (intro conjI allI impI)
  have wf: "xml_well_formed attrib" using org name by (simp add: xml_well_formed_def)
  have dis: "xml_discards attrib" using org by (simp add: xml_discards_def)
  have nm: "xml_name attrib = n" using name by (simp add: xml_name_def)
  show "xml_entry (db, disc) attrib = Inr (db, disc @ [n])"
    by (simp add: xml_entry_discarded [OF wf dis] nm)
  show "xml_entries st (pre @ attrib # post)
         = (case xml_entries st pre of
              Inl e \<Rightarrow> Inl e
            | Inr (db1, disc1) \<Rightarrow> xml_entries (db1, disc1 @ [n]) post)"
    by (simp add: xml_entries_append xml_entry_discarded [OF wf dis] nm
        split: sum.splits prod.splits)
  fix dbf discf
  assume ld: "load_xml_msigdb (Inr (pre @ attrib # post)) = Inr (dbf, discf)"
  then have run: "xml_entries (Map.empty, []) (pre @ attrib # post) = Inr (dbf, discf)"
    by (simp add: load_xml_msigdb_def)
  note k = xml_entries_keys [OF run]
  show "n \<in> set discf"
    using dis nm by (simp add: k(1))
  fix key
  assume "dbf key \<noteq> None"
  then have "key \<in> dom dbf" by (simp add: dom_def)
  then obtain h where h: "h \<in> set (pre @ attrib # post)" "\<not> xml_discards h"
    and eq: "xml_key h = Some key"
    unfolding k(2) by blast
  from h dis have "h \<in> set (pre @ post)" by auto
  moreover from h have "h ''ORGANISM'' = Some ''Homo sapiens''" by (simp add: xml_discards_def)
  ultimately show "\<exists>h \<in> set (pre @ post). h ''ORGANISM'' = Some ''Homo sapiens''
                    \<and> xml_key h = Some key"
    using eq by auto
qed

lemma human_mouse_load:
  "load_xml_msigdb (Inr [human_entry, mouse_entry])
     = Inr ([''C2_M1'' \<mapsto> \<lparr>gset = [(''100'', 1 :: real), (''200'', 1)], bias = 0,
                             info = xml_url @ ''SET_ONE''\<rparr>], [''M1''])"
  by (simp add: load_xml_msigdb_def xml_entry_def human_entry_def mouse_entry_def
      GeneSignature_init_def dict_zip_def)

theorem xml_other_organism_counterexample:
  "mouse_entry ''ORGANISM'' = Some ''Mus musculus''
   \<and> mouse_entry ''CATEGORY_CODE'' = Some ''C2''
   \<and> mouse_entry ''SYSTEMATIC_NAME'' = Some ''M1''
   \<and> (\<exists>(db :: string \<rightharpoonup> (string, real) GeneSignature) gs.
         load_xml_msigdb (Inr [human_entry, mouse_entry]) = Inr (db, [''M1''])
         \<and> db ''C2_M1'' = Some gs)"
  by (simp add: human_mouse_load) (simp add: mouse_entry_def)

theorem xml_other_organism_discarded_witness:
  "mouse_entry ''ORGANISM'' = Some ''Mus musculus''
   \<and> ''Mus musculus'' \<noteq> ''Homo sapiens''
   \<and> mouse_entry ''SYSTEMATIC_NAME'' = Some ''M1''
   \<and> xml_entry (Map.empty :: string \<rightharpoonup> (string, real) GeneSignature, []) mouse_entry
        = Inr (Map.empty, [''M1''])"
proof -
  have org: "mouse_entry ''ORGANISM'' = Some ''Mus musculus''"
    and ne: "''Mus musculus'' \<noteq> ''Homo sapiens''"
    and name: "mouse_entry ''SYSTEMATIC_NAME'' = Some ''M1''"
    by (simp_all add: mouse_entry_def)
  from xml_other_organism_discarded [OF org ne name,
      of "Map.empty :: string \<rightharpoonup> (string, real) GeneSignature" "[]", THEN conjunct1]
  have "xml_entry (Map.empty :: string \<rightharpoonup> (string, real) GeneSignature, []) mouse_entry
        = Inr (Map.empty, [''M1''])"
    by simp
  with org ne name show ?thesis by (intro conjI)
qed

section \<open>Malformed entries\<close>

text \<open>
  C3, as amended. On a readable file each loader puts the entries it filters out into the
  discard list, in file order, and goes on: a line whose second field does not start with
  \<open>Human\<close> or whose symbol lookup raises KeyError, a GENESET element of another
  organism. A malformed entry is not discarded, it ends the load with an exception and no
  result: IndexError for a line with fewer than two tab-separated fields, KeyError for an
  element without one of the attributes the loader reads from it. With an annotation that
  has been loaded these are the only failures on a readable file, and a file that cannot
  be read fails with its own error.
\<close>

theorem loaders_malformed_entries:
  "(gene_to_id annot \<noteq> None \<longrightarrow>
      (list_all gmt_well_formed ls \<longrightarrow>
         (\<exists>db :: string \<rightharpoonup> (cell, 'w :: {zero, one}) GeneSignature.
            load_gmt_genesigdb (Inr ls) annot
              = Inr (db, map sig_id (filter (gmt_discards annot) ls))))
    \<and> (\<not> list_all gmt_well_formed ls \<longrightarrow>
         load_gmt_genesigdb (Inr ls) annot
           = (Inl IndexError :: error + (string \<rightharpoonup> (cell, 'w) GeneSignature) \<times> string list)))
   \<and> load_gmt_genesigdb (Inl e) annot
        = (Inl e :: error + (string \<rightharpoonup> (cell, 'w) GeneSignature) \<times> string list)
   \<and> (list_all xml_well_formed sigs \<longrightarrow>
         (\<exists>db :: string \<rightharpoonup> (string, 'w) GeneSignature.
            load_xml_msigdb (Inr sigs)
              = Inr (db, map xml_name (filter xml_discards sigs))))
   \<and> (\<not> list_all xml_well_formed sigs \<longrightarrow>
         load_xml_msigdb (Inr sigs)
           = (Inl KeyError :: error + (string \<rightharpoonup> (string, 'w) GeneSignature) \<times> string list))
   \<and> load_xml_msigdb (Inl e)
        = (Inl e :: error + (string \<rightharpoonup> (string, 'w) GeneSignature) \<times> string list)"
proof (intro conjI impI)
  assume loaded: "gene_to_id annot \<noteq> None" and wf: "list_all gmt_well_formed ls"
  from gmt_lines_well_formed
    [OF loaded wf, of "Map.empty :: string \<rightharpoonup> (cell, 'w) GeneSignature" "[]"]
  show "\<exists>db :: string \<rightharpoonup> (cell, 'w) GeneSignature.
            load_gmt_genesigdb (Inr ls) annot
              = Inr (db, map sig_id (filter (gmt_discards annot) ls))"
    by (auto simp: load_gmt_genesigdb_def)
next
  assume loaded: "gene_to_id annot \<noteq> None" and ill: "\<not> list_all gmt_well_formed ls"
  show "load_gmt_genesigdb (Inr ls) annot
           = (Inl IndexError :: error + (string \<rightharpoonup> (cell, 'w) GeneSignature) \<times> string list)"
    by (simp add: load_gmt_genesigdb_def gmt_lines_ill_formed [OF loaded ill])
next
  show "load_gmt_genesigdb (Inl e) annot
        = (Inl e :: error + (string \<rightharpoonup> (cell, 'w) GeneSignature) \<times> string list)"
    by (simp add: load_gmt_genesigdb_def)
next
  assume wf: "list_all xml_well_formed sigs"
  from xml_entries_well_formed
    [OF wf, of "Map.empty :: string \<rightharpoonup> (string, 'w) GeneSignature" "[]"]
  show "\<exists>db :: string \<rightharpoonup> (string, 'w) GeneSignature.
            load_xml_msigdb (Inr sigs)
              = Inr (db, map xml_name (filter xml_discards sigs))"
    by (auto simp: load_xml_msigdb_def)
next
  assume ill: "\<not> list_all xml_well_formed sigs"
  show "load_xml_msigdb (Inr sigs)
           = (Inl KeyError :: error + (string \<rightharpoonup> (string, 'w) GeneSignature) \<times> string list)"
    by (simp add: load_xml_msigdb_def xml_entries_ill_formed [OF ill])
next
  show "load_xml_msigdb (Inl e)
        = (Inl e :: error + (string \<rightharpoonup> (string, 'w) GeneSignature) \<times> string list)"
    by (simp add: load_xml_msigdb_def)
qed

theorem loaders_malformed_counterexample:
  "(\<exists>a. read_from_table [] (Annotation_init (IntV 0)) (Inr spec_table) ''v1'' = Inr a
      \<and> sig_id untabbed_line = ''SIG2'' @ [CHR 0x0A]
      \<and> load_gmt_genesigdb (Inr [bare_line, untabbed_line]) a
           = (Inl IndexError :: error + (string \<rightharpoonup> (cell, real) GeneSignature) \<times> string list))
   \<and> no_organism_entry ''SYSTEMATIC_NAME'' = Some ''M1''
   \<and> load_xml_msigdb (Inr [human_entry, no_organism_entry])
        = (Inl KeyError :: error + (string \<rightharpoonup> (string, real) GeneSignature) \<times> string list)"
proof (intro conjI)
  from tables_read(1) [where ver = "''v1''"] obtain a
    where a: "read_from_table [] (Annotation_init (IntV 0)) (Inr spec_table) ''v1'' = Inr a"
    by (elim exE)
  note g = spec_index [OF a]
  have sid: "sig_id untabbed_line = ''SIG2'' @ [CHR 0x0A]"
    by (simp add: sig_id_def untabbed_tokens)
  have "load_gmt_genesigdb (Inr [bare_line, untabbed_line]) a
           = (Inl IndexError :: error + (string \<rightharpoonup> (cell, real) GeneSignature) \<times> string list)"
    by (simp add: load_gmt_genesigdb_def gmt_line_def bare_tokens untabbed_tokens strip_marker
        startswith_def Let_def GeneSignature_init_def)
  with a sid
  show "\<exists>a. read_from_table [] (Annotation_init (IntV 0)) (Inr spec_table) ''v1'' = Inr a
      \<and> sig_id untabbed_line = ''SIG2'' @ [CHR 0x0A]
      \<and> load_gmt_genesigdb (Inr [bare_line, untabbed_line]) a
           = (Inl IndexError :: error + (string \<rightharpoonup> (cell, real) GeneSignature) \<times> string list)"
    by (intro exI [of _ a] conjI)
  show "no_organism_entry ''SYSTEMATIC_NAME'' = Some ''M1''"
    by (simp add: no_organism_entry_def)
  show "load_xml_msigdb (Inr [human_entry, no_organism_entry])
        = (Inl KeyError :: error + (string \<rightharpoonup> (string, real) GeneSignature) \<times> string list)"
    by (simp add: load_xml_msigdb_def xml_entry_def human_entry_def no_organism_entry_def
        GeneSignature_init_def)
qed

theorem loaders_malformed_entries_witness:
  "\<exists>a. read_from_table [] (Annotation_init (IntV 0)) (Inr spec_table) ''v1'' = Inr a
      \<and> gene_to_id a \<noteq> None
      \<and> list_all gmt_well_formed [bare_line, nope_line]
      \<and> (\<exists>db :: string \<rightharpoonup> (cell, real) GeneSignature.
            load_gmt_genesigdb (Inr [bare_line, nope_line]) a = Inr (db, [''SIG1'']))
      \<and> \<not> list_all gmt_well_formed [bare_line, untabbed_line]
      \<and> load_gmt_genesigdb (Inr [bare_line, untabbed_line]) a
           = (Inl IndexError :: error + (string \<rightharpoonup> (cell, real) GeneSignature) \<times> string list)
      \<and> list_all xml_well_formed [human_entry, mouse_entry]
      \<and> (\<exists>db :: string \<rightharpoonup> (string, real) GeneSignature.
            load_xml_msigdb (Inr [human_entry, mouse_entry]) = Inr (db, [''M1'']))
      \<and> \<not> list_all xml_well_formed [human_entry, no_organism_entry]
      \<and> load_xml_msigdb (Inr [human_entry, no_organism_entry])
           = (Inl KeyError :: error + (string \<rightharpoonup> (string, real) GeneSignature) \<times> string list)"
proof -
  from tables_read(1) [where ver = "''v1''"] obtain a
    where a: "read_from_table [] (Annotation_init (IntV 0)) (Inr spec_table) ''v1'' = Inr a"
    by (elim exE)
  note g = spec_index [OF a]
  have loaded: "gene_to_id a \<noteq> None" by (simp add: g)
  have wf1: "list_all gmt_well_formed [bare_line, nope_line]"
    by (simp add: gmt_well_formed_def bare_tokens nope_tokens)
  have ill1: "\<not> list_all gmt_well_formed [bare_line, untabbed_line]"
    by (simp add: gmt_well_formed_def bare_tokens untabbed_tokens)
  have d1: "\<not> gmt_discards a bare_line"
    by (simp add: gmt_discards_def looked_up_def bare_tokens startswith_def)
  have d2: "gmt_discards a nope_line"
    by (simp add: gmt_discards_def looked_up_def nope_tokens startswith_def strip_marker
        id_from_symbol_def g)
  have sid: "sig_id nope_line = ''SIG1''" by (simp add: sig_id_def nope_tokens)
  have wf2: "list_all xml_well_formed [human_entry, mouse_entry]"
    by (simp add: xml_well_formed_def human_entry_def mouse_entry_def)
  have ill2: "\<not> list_all xml_well_formed [human_entry, no_organism_entry]"
    by (simp add: xml_well_formed_def human_entry_def no_organism_entry_def)
  have x1: "\<not> xml_discards human_entry" and x2: "xml_discards mouse_entry"
    and xn: "xml_name mouse_entry = ''M1''"
    by (simp_all add: xml_discards_def xml_name_def human_entry_def mouse_entry_def)
  note T1 = loaders_malformed_entries
    [where 'w = real and annot = a and ls = "[bare_line, nope_line]"
       and sigs = "[human_entry, mouse_entry]"]
  note T2 = loaders_malformed_entries
    [where 'w = real and annot = a and ls = "[bare_line, untabbed_line]"
       and sigs = "[human_entry, no_organism_entry]"]
  from T1 loaded wf1 have r1: "\<exists>db :: string \<rightharpoonup> (cell, real) GeneSignature.
            load_gmt_genesigdb (Inr [bare_line, nope_line]) a = Inr (db, [''SIG1''])"
    by (simp add: d1 d2 sid)
  from T2 loaded ill1 have r2: "load_gmt_genesigdb (Inr [bare_line, untabbed_line]) a
           = (Inl IndexError :: error + (string \<rightharpoonup> (cell, real) GeneSignature) \<times> string list)"
    by simp
  from T1 wf2 have r3: "\<exists>db :: string \<rightharpoonup> (string, real) GeneSignature.
            load_xml_msigdb (Inr [human_entry, mouse_entry]) = Inr (db, [''M1''])"
    by (simp add: x1 x2 xn)
  from T2 ill2 have r4: "load_xml_msigdb (Inr [human_entry, no_organism_entry])
           = (Inl KeyError :: error + (string \<rightharpoonup> (string, real) GeneSignature) \<times> string list)"
    by simp
  from a loaded wf1 r1 ill1 r2 wf2 r3 ill2 r4 show ?thesis
    by (intro exI [of _ a] conjI)
qed

end
